theory Spec2Isabelle
  imports Main "HOL-Library.Multiset" "HOL-Library.AList"
begin

section \<open>Strings, as the Python code uses them\<close>

text \<open>
  A \<^typ>\<open>string\<close> is a Python \<open>str\<close> whose characters are the code points below 256
  (ASCII and Latin-1); a \<^typ>\<open>char\<close> is its code point. On these code points
  \<open>str.lower\<close> changes the letters \<open>A..Z\<close> (65 to 90) and the accented capitals 192 to 214
  and 216 to 222, each to the code point 32 above it, and never changes the length of a
  string. The regular-expression class \<open>\w\<close> of a \<open>str\<close> pattern holds the digits, the
  letters, the underscore, and the Latin-1 letters and numerals (170, 178, 179, 181, 185,
  186, 188 to 190, 192 to 214, 216 to 246, 248 to 255). \<open>str.split()\<close> and
  \<open>str.strip()\<close> take as white space the code points 9 to 13, 28 to 32, 133 and 160.
  Text with code points from 256 on is not covered.
\<close>

definition lower_char :: "char \<Rightarrow> char" where
  "lower_char c =
     (let n = (of_char c :: nat) in
        if (65 \<le> n \<and> n \<le> 90) \<or> (192 \<le> n \<and> n \<le> 214) \<or> (216 \<le> n \<and> n \<le> 222)
        then char_of (n + 32) else c)"

definition lower :: "string \<Rightarrow> string" where
  "lower s = map lower_char s"

definition is_word_char :: "char \<Rightarrow> bool" where
  "is_word_char c =
     (let n = (of_char c :: nat) in
        (48 \<le> n \<and> n \<le> 57) \<or> (65 \<le> n \<and> n \<le> 90) \<or> n = 95 \<or> (97 \<le> n \<and> n \<le> 122)
        \<or> n = 170 \<or> n = 178 \<or> n = 179 \<or> n = 181 \<or> n = 185 \<or> n = 186
        \<or> (188 \<le> n \<and> n \<le> 190) \<or> (192 \<le> n \<and> n \<le> 214) \<or> (216 \<le> n \<and> n \<le> 246)
        \<or> (248 \<le> n \<and> n \<le> 255))"

definition is_space :: "char \<Rightarrow> bool" where
  "is_space c =
     (let n = (of_char c :: nat) in
        (9 \<le> n \<and> n \<le> 13) \<or> (28 \<le> n \<and> n \<le> 32) \<or> n = 133 \<or> n = 160)"

text \<open>\<open>sep.join(xs)\<close>.\<close>

fun join :: "string \<Rightarrow> string list \<Rightarrow> string" where
  "join sep [] = []"
| "join sep [x] = x"
| "join sep (x # y # ys) = x @ sep @ join sep (y # ys)"

text \<open>
  \<open>text.split()\<close>: the maximal runs of characters that are not white space, in order;
  \<open>w\<close> is the run being read.
\<close>

fun split_from :: "string \<Rightarrow> string \<Rightarrow> string list" where
  "split_from w [] = (if w = [] then [] else [w])"
| "split_from w (c # cs) =
     (if is_space c then (if w = [] then split_from [] cs else w # split_from [] cs)
      else split_from (w @ [c]) cs)"

definition split :: "string \<Rightarrow> string list" where
  "split text = split_from [] text"

text \<open>\<open>range(start, stop, step)\<close> for the positive steps the code uses.\<close>

function range_step :: "nat \<Rightarrow> nat \<Rightarrow> nat \<Rightarrow> nat list" where
  "range_step start stop step =
     (if step = 0 \<or> stop \<le> start then [] else start # range_step (start + step) stop step)"
  by pat_completeness auto
termination
  by (relation "measure (\<lambda>(start, stop, step). stop - start)") auto

declare range_step.simps [simp del]

section \<open>Exceptions and JSON values\<close>

text \<open>
  The exception classes the code raises, catches or lets through. \<open>RequestError\<close> is
  \<open>httpx.RequestError\<close> (a transport failure) and \<open>HTTPStatusError\<close> the exception
  of \<open>response.raise_for_status()\<close> on an error status; in httpx neither is a subclass of
  the other. \<open>InvalidDimension\<close> is the exception of the vector store for an embedding whose
  length is not the dimension of the collection. \<open>DBAPIError\<close> is the exception of
  SQLAlchemy for a statement the database driver refuses, \<open>PendingRollbackError\<close> its
  exception for the use of a session after a commit that failed. \<open>OtherError\<close> stands for
  any exception of a library the code does not name.
\<close>

datatype error =
  RequestError | HTTPStatusError | JSONDecodeError | KeyError | AttributeError
  | TypeError | IndexError | ValueError | InvalidDimension | DBAPIError
  | PendingRollbackError | OtherError

text \<open>
  What \<open>json.loads\<close> returns. A \<open>JDict\<close> lists the items of a Python dict in insertion
  order, each key once. The code never computes with a parsed number, so numbers are
  integers here.
\<close>

datatype json =
  JNull | JBool bool | JNum int | JStr string | JList "json list" | JDict "(string \<times> json) list"

section \<open>InsightExtractor: keyword frequencies\<close>

text \<open>
  \<open>re.findall(r'\b' + re.escape(k) + r'\b', t)\<close>: the pattern is the literal \<open>k\<close> between
  two word boundaries. \<open>word_boundary s i\<close> is \<open>\b\<close> at offset \<open>i\<close> of \<open>s\<close>: exactly one
  of the characters before and after the offset is a word character (the ends of the
  string count as non-word).
\<close>

definition word_boundary :: "string \<Rightarrow> nat \<Rightarrow> bool" where
  "word_boundary s i =
     ((0 < i \<and> i \<le> length s \<and> is_word_char (s ! (i - 1)))
        \<noteq> (i < length s \<and> is_word_char (s ! i)))"

definition match_at :: "string \<Rightarrow> string \<Rightarrow> nat \<Rightarrow> bool" where
  "match_at p s i =
     (i + length p \<le> length s \<and> word_boundary s i \<and> take (length p) (drop i s) = p
        \<and> word_boundary s (i + length p))"

text \<open>
  \<open>len(re.findall(...))\<close>: the scan goes left to right; after a match the search
  resumes at its end (matches do not overlap), and after an empty match one character
  further.
\<close>

function findall_count :: "string \<Rightarrow> string \<Rightarrow> nat \<Rightarrow> nat" where
  "findall_count p s i =
     (if length s < i then 0
      else if match_at p s i then Suc (findall_count p s (i + max 1 (length p)))
      else findall_count p s (Suc i))"
  by pat_completeness auto
termination
  by (relation "measure (\<lambda>(p, s, i). Suc (length s) - i)") auto

declare findall_count.simps [simp del]

definition keyword_count :: "string \<Rightarrow> string \<Rightarrow> nat" where
  "keyword_count keyword transcript = findall_count (lower keyword) (lower transcript) 0"

text \<open>
  The loop of \<open>_calculate_keyword_frequency\<close>: an entry \<open>{"keyword": k, "count": c}\<close> is
  the pair \<open>(k, c)\<close>, appended in input order when \<open>c > 0\<close>. \<open>keyword.lower()\<close> on
  an element that is not a string raises \<open>AttributeError\<close>.
\<close>

fun frequencies :: "json list \<Rightarrow> string \<Rightarrow> error + (string \<times> nat) list" where
  "frequencies [] transcript = Inr []"
| "frequencies (JStr keyword # keywords) transcript =
     (case frequencies keywords transcript of
        Inl e \<Rightarrow> Inl e
      | Inr rest \<Rightarrow>
          (let count = keyword_count keyword transcript in
             Inr (if count > 0 then (keyword, count) # rest else rest)))"
| "frequencies (other # keywords) transcript = Inl AttributeError"

text \<open>
  \<open>frequencies.sort(key=lambda x: x['count'], reverse=True)\<close> is a stable sort by
  descending count; \<open>frequencies[:7]\<close> keeps the first seven.
\<close>

definition calculate_keyword_frequency ::
  "json list \<Rightarrow> string \<Rightarrow> error + (string \<times> nat) list" where
  "calculate_keyword_frequency keywords transcript =
     (case frequencies keywords transcript of
        Inl e \<Rightarrow> Inl e
      | Inr fs \<Rightarrow> Inr (take 7 (sort_key (\<lambda>x. - int (snd x)) fs)))"

definition entry_json :: "string \<times> nat \<Rightarrow> json" where
  "entry_json x = JDict [(''keyword'', JStr (fst x)), (''count'', JNum (int (snd x)))]"

section \<open>The world outside the code\<close>

text \<open>
  What a streamed request to the language-model endpoint gives: the lines that
  \<open>iter_lines\<close> yields and, when the exchange fails, the exception it raises after them
  (\<open>HTTPStatusError\<close> from \<open>raise_for_status\<close> comes before any line).
\<close>

datatype llm_reply = Stream "string list" "error option"

text \<open>
  What the request of \<open>_get_embedding\<close> gives: the value of
  \<open>response.json()['embedding']\<close>, or the exception raised on the way to it. The code
  never computes with the components of an embedding, so they are integers here.
\<close>

type_synonym vector = "int list"

datatype embed_reply = EmbedRaises error | Embedding vector

text \<open>A stored chunk of the vector index, with the \<open>meeting_id\<close> of its metadata.\<close>

record entry =
  entry_id :: string
  entry_embedding :: vector
  entry_document :: string
  entry_meeting_id :: nat

text \<open>A row of the table \<open>meetings\<close>; a text column holding \<open>json.dumps(v)\<close> holds \<open>v\<close>.\<close>

record meeting =
  meeting_filename :: string
  meeting_status :: string
  meeting_transcript :: "string option"
  meeting_summary :: "json option"
  meeting_action_items :: "json option"
  meeting_decisions :: "json option"
  meeting_keywords :: "json option"
  meeting_participants :: "json option"
  meeting_sentiment :: "json option"

text \<open>
  The trace of a run: the effects in the order they happen. \<open>StatusPersisted\<close> is the
  commit of a status. \<open>Started\<close> is the call that begins a phase of the pipeline; it
  records what a poll of the status of the meeting reads from the database at that
  moment.
\<close>

datatype phase = Transcription | Extraction | Indexing

datatype event =
  StatusPersisted nat string
  | Started phase "string option"
  | EmbedRequest string
  | ExtractRequest string
  | AnswerRequest string string
  | IndexQuery nat nat
  | IndexAdd "string list"
  | FileRemoved string

text \<open>
  The services the code calls. \<open>embed\<close> answers by the time of the request (the number
  of events so far) and its text, so two requests for one text may differ. \<open>insights_llm\<close>
  answers the extraction prompt built from a transcript, \<open>answer_llm\<close> the retrieval
  prompt built from a context and a query. \<open>loads\<close> is \<open>json.loads\<close>, \<open>None\<close> where it
  raises \<open>JSONDecodeError\<close>. \<open>decode\<close> is pydub reading a file, as one item per
  millisecond of audio; \<open>whisper\<close> gives the texts of the segments of one audio chunk;
  \<open>completion\<close> lists the transcription tasks of a file in the order they finish.
  \<open>distance\<close> ranks stored embeddings against a query embedding.
\<close>

record env =
  loads :: "string \<Rightarrow> json option"
  embed :: "nat \<Rightarrow> string \<Rightarrow> embed_reply"
  insights_llm :: "string \<Rightarrow> llm_reply"
  answer_llm :: "string \<Rightarrow> string \<Rightarrow> llm_reply"
  decode :: "string \<Rightarrow> error + nat list"
  whisper :: "nat list \<Rightarrow> error + string list"
  completion :: "string \<Rightarrow> nat list"
  distance :: "vector \<Rightarrow> vector \<Rightarrow> int"

text \<open>
  The state the code works on: the database, the files on disk, the vector collection,
  and the trace so far.
\<close>

record world =
  db :: "nat \<rightharpoonup> meeting"
  files :: "string set"
  collection :: "entry list"
  events :: "event list"

definition emit :: "event \<Rightarrow> world \<Rightarrow> world" where
  "emit e w = w\<lparr>events := events w @ [e]\<rparr>"

text \<open>
  \<open>GET /meetings/{meeting_id}/status\<close>: the status of the row, \<open>None\<close> where the route
  answers 404.
\<close>

definition poll :: "nat \<Rightarrow> world \<Rightarrow> string option" where
  "poll meeting_id w = map_option meeting_status (db w meeting_id)"

definition begin_phase :: "phase \<Rightarrow> nat \<Rightarrow> world \<Rightarrow> world" where
  "begin_phase ph meeting_id w = emit (Started ph (poll meeting_id w)) w"

section \<open>MeetingCRUD\<close>

definition update_status :: "nat \<Rightarrow> string \<Rightarrow> world \<Rightarrow> world" where
  "update_status meeting_id s w =
     (case db w meeting_id of
        None \<Rightarrow> w
      | Some db_meeting \<Rightarrow>
          emit (StatusPersisted meeting_id s)
            (w\<lparr>db := (db w)(meeting_id \<mapsto> db_meeting\<lparr>meeting_status := s\<rparr>)\<rparr>))"

definition update_transcript :: "nat \<Rightarrow> string \<Rightarrow> world \<Rightarrow> world" where
  "update_transcript meeting_id text w =
     (case db w meeting_id of
        None \<Rightarrow> w
      | Some db_meeting \<Rightarrow> w\<lparr>db := (db w)(meeting_id \<mapsto> db_meeting\<lparr>meeting_transcript := Some text\<rparr>)\<rparr>)"

text \<open>\<open>insights.get(key, default)\<close> on a dict.\<close>

definition dict_get :: "(string \<times> json) list \<Rightarrow> string \<Rightarrow> json \<Rightarrow> json" where
  "dict_get items key dflt = (case map_of items key of None \<Rightarrow> dflt | Some v \<Rightarrow> v)"

text \<open>
  The session of the database that a run opens. After a \<open>db.commit()\<close> that raised, the
  session needs a rollback, which the code never issues: every later use of the session
  raises \<open>PendingRollbackError\<close>.
\<close>

datatype session = Usable | NeedsRollback

text \<open>
  The values the SQLite driver binds to a column of type \<open>Text\<close> or \<open>String\<close>: \<open>None\<close>, a
  string, a number, a boolean. For a list or a dict the statement is refused.
\<close>

fun bindable :: "json \<Rightarrow> bool" where
  "bindable (JList xs) = False"
| "bindable (JDict items) = False"
| "bindable v = True"

text \<open>
  \<open>update_insights\<close>, with the state in which it leaves the session. \<open>insights.get\<close>
  raises \<open>AttributeError\<close> on a value that is not a dict, once the row is found.
  \<open>summary\<close> and \<open>sentiment\<close> are assigned as they are (the other columns hold the text of
  \<open>json.dumps\<close>), so \<open>db.commit()\<close> raises when one of them is a list or a dict: nothing
  is written and the session needs a rollback.
\<close>

definition update_insights :: "nat \<Rightarrow> json \<Rightarrow> world \<Rightarrow> (error + unit) \<times> session \<times> world" where
  "update_insights meeting_id insights w =
     (case db w meeting_id of
        None \<Rightarrow> (Inr (), Usable, w)
      | Some db_meeting \<Rightarrow>
          (case insights of
             JDict items \<Rightarrow>
               if bindable (dict_get items ''summary'' JNull)
                    \<and> bindable (dict_get items ''sentiment'' JNull)
               then (Inr (), Usable,
                 w\<lparr>db := (db w)(meeting_id \<mapsto> db_meeting
                   \<lparr>meeting_summary := Some (dict_get items ''summary'' JNull),
                    meeting_action_items := Some (dict_get items ''action_items'' (JList [])),
                    meeting_decisions := Some (dict_get items ''decisions'' (JList [])),
                    meeting_keywords := Some (dict_get items ''keywords'' (JList [])),
                    meeting_participants := Some (dict_get items ''participants'' (JList [])),
                    meeting_sentiment := Some (dict_get items ''sentiment'' JNull)\<rparr>)\<rparr>)
               else (Inl DBAPIError, NeedsRollback, w)
           | other \<Rightarrow> (Inl AttributeError, Usable, w)))"

section \<open>InsightExtractor: reading the stream\<close>

text \<open>
  The loop over \<open>response.iter_lines()\<close>, the same in \<open>extract\<close> and in \<open>search\<close>:
  a line that is not blank is parsed, \<open>chunk.get("response", "")\<close> needs a dict, and
  \<open>+=\<close> on the text so far needs a string.
\<close>

fun get_response :: "json \<Rightarrow> error + json" where
  "get_response (JDict items) = Inr (dict_get items ''response'' (JStr []))"
| "get_response other = Inl AttributeError"

fun read_lines :: "(string \<Rightarrow> json option) \<Rightarrow> string list \<Rightarrow> string \<Rightarrow> error + string" where
  "read_lines ld [] full_text = Inr full_text"
| "read_lines ld (line # lines) full_text =
     (if list_all is_space line then read_lines ld lines full_text
      else (case ld line of
              None \<Rightarrow> Inl JSONDecodeError
            | Some chunk \<Rightarrow>
                (case get_response chunk of
                   Inl e \<Rightarrow> Inl e
                 | Inr (JStr piece) \<Rightarrow> read_lines ld lines (full_text @ piece)
                 | Inr other \<Rightarrow> Inl TypeError)))"

definition read_reply :: "(string \<Rightarrow> json option) \<Rightarrow> llm_reply \<Rightarrow> error + string" where
  "read_reply ld reply =
     (case reply of
        Stream lines failure \<Rightarrow>
          (case read_lines ld lines [] of
             Inl e \<Rightarrow> Inl e
           | Inr full_text \<Rightarrow> (case failure of None \<Rightarrow> Inr full_text | Some e \<Rightarrow> Inl e)))"

text \<open>\<open>p in s\<close> for strings.\<close>

fun contains :: "string \<Rightarrow> string \<Rightarrow> bool" where
  "contains p [] = (p = [])"
| "contains p (c # cs) = (take (length p) (c # cs) = p \<or> contains p cs)"

text \<open>
  \<open>'keywords' in insights\<close>: a key of a dict, an element of a list, a substring of a
  string; \<open>TypeError\<close> on a number, a boolean or \<open>None\<close>.
\<close>

fun has_keywords :: "json \<Rightarrow> error + bool" where
  "has_keywords (JDict items) = Inr (map_of items ''keywords'' \<noteq> None)"
| "has_keywords (JList xs) = Inr (List.member xs (JStr ''keywords''))"
| "has_keywords (JStr s) = Inr (contains ''keywords'' s)"
| "has_keywords other = Inl TypeError"

text \<open>\<open>insights['keywords']\<close>.\<close>

fun subscript_keywords :: "json \<Rightarrow> error + json" where
  "subscript_keywords (JDict items) =
     (case map_of items ''keywords'' of None \<Rightarrow> Inl KeyError | Some v \<Rightarrow> Inr v)"
| "subscript_keywords other = Inl TypeError"

text \<open>\<open>insights['keywords'] = v\<close> on a dict that has the key.\<close>

fun assign_keywords :: "json \<Rightarrow> json \<Rightarrow> json" where
  "assign_keywords (JDict items) v = JDict (AList.update ''keywords'' v items)"
| "assign_keywords other v = other"

definition annotate_keywords :: "json \<Rightarrow> string \<Rightarrow> error + json" where
  "annotate_keywords insights transcript =
     (case has_keywords insights of
        Inl e \<Rightarrow> Inl e
      | Inr False \<Rightarrow> Inr insights
      | Inr True \<Rightarrow>
          (case subscript_keywords insights of
             Inl e \<Rightarrow> Inl e
           | Inr (JList ks) \<Rightarrow>
               (case calculate_keyword_frequency ks transcript of
                  Inl e \<Rightarrow> Inl e
                | Inr fs \<Rightarrow> Inr (assign_keywords insights (JList (map entry_json fs))))
           | Inr other \<Rightarrow> Inr insights))"

definition sentinel :: json where
  "sentinel =
     JDict [(''summary'', JStr ''Error extracting insights.''), (''action_items'', JList []),
            (''decisions'', JList []), (''keywords'', JList []), (''sentiment'', JStr ''Unknown'')]"

text \<open>
  \<open>except (httpx.RequestError, json.JSONDecodeError, KeyError)\<close>, and the method
  \<open>extract\<close> of the class.
\<close>

definition caught :: "error \<Rightarrow> bool" where
  "caught e = (e = RequestError \<or> e = JSONDecodeError \<or> e = KeyError)"

definition extract_insights :: "env \<Rightarrow> string \<Rightarrow> world \<Rightarrow> (error + json) \<times> world" where
  "extract_insights env transcript w =
     (let body =
            (case read_reply (loads env) (insights_llm env transcript) of
               Inl e \<Rightarrow> Inl e
             | Inr text \<Rightarrow>
                 (case loads env text of
                    None \<Rightarrow> Inl JSONDecodeError
                  | Some insights \<Rightarrow> annotate_keywords insights transcript))
      in ((case body of
             Inl e \<Rightarrow> if caught e then Inr sentinel else Inl e
           | Inr insights \<Rightarrow> Inr insights),
          emit (ExtractRequest transcript) w))"

section \<open>VectorStoreService\<close>

text \<open>
  \<open>_get_embedding\<close>: \<open>except (httpx.RequestError, KeyError)\<close> gives \<open>None\<close>; any other
  exception goes up.
\<close>

definition get_embedding :: "env \<Rightarrow> string \<Rightarrow> world \<Rightarrow> (error + vector option) \<times> world" where
  "get_embedding env text w =
     ((case embed env (length (events w)) text of
         EmbedRaises e \<Rightarrow> if e = RequestError \<or> e = KeyError then Inr None else Inl e
       | Embedding v \<Rightarrow> Inr (Some v)),
      emit (EmbedRequest text) w)"

text \<open>
  \<open>_chunk_text\<close>, with its parameters (\<open>chunk_size=300\<close>, \<open>overlap=50\<close> at the only
  call).
\<close>

definition chunk_text :: "string \<Rightarrow> nat \<Rightarrow> nat \<Rightarrow> string list" where
  "chunk_text text chunk_size overlap =
     (let words = split text in
        if words = [] then []
        else map (\<lambda>i. join '' '' (take chunk_size (drop i words)))
               (range_step 0 (length words) (chunk_size - overlap)))"

text \<open>
  The comprehension
  \<open>[self._get_embedding(chunk) for chunk in chunks if self._get_embedding(chunk) is not None]\<close>:
  one request for the condition and, when it is not \<open>None\<close>, a second for the element.
\<close>

fun embed_all :: "env \<Rightarrow> string list \<Rightarrow> world \<Rightarrow> (error + vector option list) \<times> world" where
  "embed_all env [] w = (Inr [], w)"
| "embed_all env (chunk # chunks) w =
     (case get_embedding env chunk w of
        (Inl e, w1) \<Rightarrow> (Inl e, w1)
      | (Inr None, w1) \<Rightarrow> embed_all env chunks w1
      | (Inr (Some tested), w1) \<Rightarrow>
          (case get_embedding env chunk w1 of
             (Inl e, w2) \<Rightarrow> (Inl e, w2)
           | (Inr v, w2) \<Rightarrow>
               (case embed_all env chunks w2 of
                  (Inl e, w3) \<Rightarrow> (Inl e, w3)
                | (Inr vs, w3) \<Rightarrow> (Inr (v # vs), w3))))"

text \<open>
  \<open>[chunk for i, chunk in enumerate(chunks) if embeddings[i] is not None]\<close>, from index
  \<open>i\<close> on: \<open>embeddings[i]\<close> raises \<open>IndexError\<close> past the end of \<open>embeddings\<close>.
\<close>

fun valid_chunks_from :: "nat \<Rightarrow> string list \<Rightarrow> vector option list \<Rightarrow> error + string list" where
  "valid_chunks_from i [] embeddings = Inr []"
| "valid_chunks_from i (chunk # chunks) embeddings =
     (if length embeddings \<le> i then Inl IndexError
      else (case valid_chunks_from (Suc i) chunks embeddings of
              Inl e \<Rightarrow> Inl e
            | Inr rest \<Rightarrow> Inr (if embeddings ! i \<noteq> None then chunk # rest else rest)))"

text \<open>\<open>str(n)\<close> and \<open>f"{meeting_id}_{i}"\<close>.\<close>

fun str_nat :: "nat \<Rightarrow> string" where
  "str_nat n = (if n < 10 then [char_of (48 + n)] else str_nat (n div 10) @ [char_of (48 + n mod 10)])"

declare str_nat.simps [simp del]

definition doc_id :: "nat \<Rightarrow> nat \<Rightarrow> string" where
  "doc_id meeting_id i = str_nat meeting_id @ ''_'' @ str_nat i"

text \<open>
  The collection of the vector store. Its dimension is the length of the embeddings it
  holds, fixed by the first embedding added; an empty collection has none yet.
  \<open>same_dimension d vs\<close>: the embeddings \<open>vs\<close>, taken in order, all have the dimension
  \<open>d\<close>, or that of the first of them when there is none yet.
\<close>

definition dimension :: "entry list \<Rightarrow> nat option" where
  "dimension coll = (case coll of [] \<Rightarrow> None | x # xs \<Rightarrow> Some (length (entry_embedding x)))"

fun same_dimension :: "nat option \<Rightarrow> vector list \<Rightarrow> bool" where
  "same_dimension d [] = True"
| "same_dimension None (v # vs) = same_dimension (Some (length v)) vs"
| "same_dimension (Some n) (v # vs) = (length v = n \<and> same_dimension (Some n) vs)"

text \<open>
  \<open>add\<close> wants as many embeddings, documents and metadata as ids and no missing
  embedding (\<open>ValueError\<close> otherwise), and embeddings of the dimension of the collection
  (\<open>InvalidDimension\<close> otherwise); it leaves a record whose id is already stored as it is.
  \<open>query\<close> with \<open>where={"meeting_id": m}\<close> wants a positive \<open>n_results\<close> (\<open>TypeError\<close>
  otherwise) and a query embedding of the dimension of the collection
  (\<open>InvalidDimension\<close> otherwise); it ranks the records whose metadata has that
  \<open>meeting_id\<close> and returns the first \<open>n_results\<close>.
\<close>

definition collection_add ::
  "vector option list \<Rightarrow> string list \<Rightarrow> nat list \<Rightarrow> string list \<Rightarrow> entry list \<Rightarrow> error + entry list" where
  "collection_add embeddings documents metadatas ids coll =
     (case those embeddings of
        None \<Rightarrow> Inl ValueError
      | Some vs \<Rightarrow>
          if length vs \<noteq> length ids \<or> length documents \<noteq> length ids
               \<or> length metadatas \<noteq> length ids
          then Inl ValueError
          else if \<not> same_dimension (dimension coll) vs then Inl InvalidDimension
          else Inr (coll @
            filter (\<lambda>x. \<not> List.member (map entry_id coll) (entry_id x))
              (map (\<lambda>(i, v, d, m).
                      \<lparr>entry_id = i, entry_embedding = v, entry_document = d, entry_meeting_id = m\<rparr>)
                 (zip ids (zip vs (zip documents metadatas))))))"

definition collection_query ::
  "env \<Rightarrow> entry list \<Rightarrow> vector \<Rightarrow> nat \<Rightarrow> nat \<Rightarrow> error + entry list" where
  "collection_query env coll query_embedding n_results meeting_id =
     (if n_results = 0 then Inl TypeError
      else if \<not> same_dimension (dimension coll) [query_embedding] then Inl InvalidDimension
      else Inr (take n_results
             (sort_key (\<lambda>x. distance env query_embedding (entry_embedding x))
                (filter (\<lambda>x. entry_meeting_id x = meeting_id) coll))))"

definition add_transcript :: "env \<Rightarrow> nat \<Rightarrow> string \<Rightarrow> world \<Rightarrow> (error + unit) \<times> world" where
  "add_transcript env meeting_id transcript w =
     (let chunks = chunk_text transcript 300 50 in
        if chunks = [] then (Inr (), w)
        else
          (case embed_all env chunks w of
             (Inl e, w1) \<Rightarrow> (Inl e, w1)
           | (Inr embeddings, w1) \<Rightarrow>
               if embeddings = [] then (Inr (), w1)
               else
                 (case valid_chunks_from 0 chunks embeddings of
                    Inl e \<Rightarrow> (Inl e, w1)
                  | Inr valid_chunks \<Rightarrow>
                      (let doc_ids = map (doc_id meeting_id) [0..<length valid_chunks];
                           metadata = map (\<lambda>c. meeting_id) valid_chunks
                       in (case collection_add embeddings valid_chunks metadata doc_ids
                                  (collection w1) of
                             Inl e \<Rightarrow> (Inl e, w1)
                           | Inr coll \<Rightarrow>
                               (Inr (), emit (IndexAdd doc_ids) (w1\<lparr>collection := coll\<rparr>)))))))"

text \<open>
  \<open>search\<close>. \<open>not query_embedding\<close> holds for \<open>None\<close> and for an empty list. The call
  of \<open>collection.query\<close> stands outside the \<open>try\<close> block, so its exception goes up. The
  retrieval prompt is built from \<open>context_str\<close> and \<open>query\<close>.
\<close>

definition search :: "env \<Rightarrow> nat \<Rightarrow> string \<Rightarrow> nat \<Rightarrow> world \<Rightarrow> (error + string) \<times> world" where
  "search env meeting_id query n_results w =
     (case get_embedding env query w of
        (Inl e, w1) \<Rightarrow> (Inl e, w1)
      | (Inr None, w1) \<Rightarrow> (Inr ''Could not process your query.'', w1)
      | (Inr (Some query_embedding), w1) \<Rightarrow>
          if query_embedding = [] then (Inr ''Could not process your query.'', w1)
          else
            (let w2 = emit (IndexQuery meeting_id n_results) w1 in
               case collection_query env (collection w1) query_embedding n_results meeting_id of
                 Inl e \<Rightarrow> (Inl e, w2)
               | Inr results \<Rightarrow>
                   (let context_chunks = map entry_document results
                    in if context_chunks = []
                       then (Inr ''I couldn't find any information related to your query in this meeting's transcript.'',
                             w2)
                       else
                         (let context_str = join [CHR 0x0A, CHR 0x0A] context_chunks in
                            ((case read_reply (loads env) (answer_llm env context_str query) of
                                Inl e \<Rightarrow>
                                  if caught e then Inr ''There was an error generating an answer.''
                                  else Inl e
                              | Inr full_text \<Rightarrow> Inr full_text),
                             emit (AnswerRequest context_str query) w2)))))"

section \<open>TranscriptionService\<close>

text \<open>\<open>_split_audio\<close>: slices of \<open>chunk_length_ms\<close> milliseconds.\<close>

definition split_audio :: "nat list \<Rightarrow> nat \<Rightarrow> nat list list" where
  "split_audio audio chunk_length_ms =
     map (\<lambda>i. take chunk_length_ms (drop i audio)) (range_step 0 (length audio) chunk_length_ms)"

definition transcribe_chunk :: "env \<Rightarrow> nat list \<Rightarrow> error + string" where
  "transcribe_chunk env chunk =
     (case whisper env chunk of Inl e \<Rightarrow> Inl e | Inr segments \<Rightarrow> Inr (join '' '' segments))"

text \<open>
  \<open>asyncio.gather(*tasks)\<close> over the thread pool. The tasks finish in the order
  \<open>order\<close> (a task it leaves out finishes after those it lists); the result of a finished
  task is stored at the index the task has in \<open>tasks\<close>, and the first exception of a
  finished task is raised.
\<close>

fun complete :: "nat list \<Rightarrow> (error + 'a) list \<Rightarrow> 'a option list \<Rightarrow> error + 'a option list" where
  "complete [] tasks slots = Inr slots"
| "complete (i # order) tasks slots =
     (if i < length tasks
      then (case tasks ! i of
              Inl e \<Rightarrow> Inl e
            | Inr v \<Rightarrow> complete order tasks (slots[i := Some v]))
      else complete order tasks slots)"

definition gather :: "nat list \<Rightarrow> (error + 'a) list \<Rightarrow> error + 'a list" where
  "gather order tasks =
     (case complete (order @ [0..<length tasks]) tasks (replicate (length tasks) None) of
        Inl e \<Rightarrow> Inl e
      | Inr slots \<Rightarrow> Inr (map the slots))"

definition transcribe :: "env \<Rightarrow> string \<Rightarrow> error + string" where
  "transcribe env filepath =
     (case decode env filepath of
        Inl e \<Rightarrow> Inl e
      | Inr wav_buffer \<Rightarrow>
          (let chunks = split_audio wav_buffer 120000;
               tasks = map (transcribe_chunk env) chunks
           in (case gather (completion env filepath) tasks of
                 Inl e \<Rightarrow> Inl e
               | Inr results \<Rightarrow> Inr (join '' '' results))))"

section \<open>AIPipeline\<close>

text \<open>The \<open>finally\<close> block of \<open>run\<close>.\<close>

definition remove_upload :: "string \<Rightarrow> world \<Rightarrow> world" where
  "remove_upload filepath w =
     (if filepath \<in> files w
      then emit (FileRemoved filepath) (w\<lparr>files := files w - {filepath}\<rparr>)
      else w)"

text \<open>
  The \<open>try\<close> block of \<open>run\<close>: the exception that leaves it, or \<open>Inr ()\<close> at its end, with
  the state of the session and the last state of the world. The session is new, and up
  to \<open>update_insights\<close> no commit fails.
\<close>

definition run_try ::
  "env \<Rightarrow> nat \<Rightarrow> string \<Rightarrow> world \<Rightarrow> (error + unit) \<times> session \<times> world" where
  "run_try env meeting_id filepath w =
     (let w1 = begin_phase Transcription meeting_id (update_status meeting_id ''transcribing'' w) in
        case transcribe env filepath of
          Inl e \<Rightarrow> (Inl e, Usable, w1)
        | Inr text \<Rightarrow>
            (let w2 = update_transcript meeting_id text w1;
                 w3 = begin_phase Extraction meeting_id (update_status meeting_id ''analyzing'' w2)
             in case extract_insights env text w3 of
                  (Inl e, w4) \<Rightarrow> (Inl e, Usable, w4)
                | (Inr insights, w4) \<Rightarrow>
                    (case update_insights meeting_id insights w4 of
                       (Inl e, s, w5) \<Rightarrow> (Inl e, s, w5)
                     | (Inr u, s, w5) \<Rightarrow>
                         (case add_transcript env meeting_id text
                                 (begin_phase Indexing meeting_id w5) of
                            (Inl e, w6) \<Rightarrow> (Inl e, s, w6)
                          | (Inr u, w6) \<Rightarrow>
                              (Inr (), s, update_status meeting_id ''completed'' w6)))))"

text \<open>
  \<open>run\<close>: what it raises, or \<open>Inr ()\<close> when it returns, and the world it leaves.
  \<open>except Exception\<close> persists \<open>failed\<close>, on the session of the \<open>try\<close> block: when that
  session needs a rollback, \<open>update_status\<close> raises \<open>PendingRollbackError\<close> at its query
  for the row, and \<open>run\<close> raises it. \<open>finally\<close> removes the upload in every case.
\<close>

definition run :: "env \<Rightarrow> nat \<Rightarrow> string \<Rightarrow> world \<Rightarrow> (error + unit) \<times> world" where
  "run env meeting_id filepath w =
     (case run_try env meeting_id filepath w of
        (Inl e, s, w1) \<Rightarrow>
          (case s of
             Usable \<Rightarrow> (Inr (), remove_upload filepath (update_status meeting_id ''failed'' w1))
           | NeedsRollback \<Rightarrow> (Inl PendingRollbackError, remove_upload filepath w1))
      | (Inr u, s, w1) \<Rightarrow> (Inr (), remove_upload filepath w1))"

section \<open>Reading a trace\<close>

text \<open>
  The statuses persisted for a meeting, in order; the requests to the embedding service
  and the vector store, which persist no status, start no phase and remove no file.
\<close>

fun statuses :: "nat \<Rightarrow> event list \<Rightarrow> string list" where
  "statuses meeting_id [] = []"
| "statuses meeting_id (StatusPersisted m s # es) =
     (if m = meeting_id then s # statuses meeting_id es else statuses meeting_id es)"
| "statuses meeting_id (e # es) = statuses meeting_id es"

fun is_request :: "event \<Rightarrow> bool" where
  "is_request (EmbedRequest text) = True"
| "is_request (IndexAdd ids) = True"
| "is_request e = False"

text \<open>
  The state machine of a meeting job as the specification draws it:
  \<open>processing \<rightarrow> transcribing \<rightarrow> analyzing \<rightarrow> completed\<close>, and \<open>failed\<close> from each state
  that is not terminal.
\<close>

definition may_follow :: "string \<Rightarrow> string \<Rightarrow> bool" where
  "may_follow a b =
     ((a = ''processing'' \<and> b = ''transcribing'') \<or> (a = ''transcribing'' \<and> b = ''analyzing'')
      \<or> (a = ''analyzing'' \<and> b = ''completed'')
      \<or> ((a = ''processing'' \<or> a = ''transcribing'' \<or> a = ''analyzing'') \<and> b = ''failed''))"

text \<open>
  The label a poll reads while a phase runs. Indexing has no label of its own: it runs
  under \<open>analyzing\<close>.
\<close>

fun phase_label :: "phase \<Rightarrow> string" where
  "phase_label Transcription = ''transcribing''"
| "phase_label Extraction = ''analyzing''"
| "phase_label Indexing = ''analyzing''"

text \<open>
  \<open>polled m cur es\<close>: along the trace \<open>es\<close>, read from the status \<open>cur\<close> of meeting \<open>m\<close>,
  every phase starts while the last status persisted is the label of that phase, and a
  poll at that moment reads this label.
\<close>

fun polled :: "nat \<Rightarrow> string \<Rightarrow> event list \<Rightarrow> bool" where
  "polled m cur [] = True"
| "polled m cur (StatusPersisted m' s # es) = polled m (if m' = m then s else cur) es"
| "polled m cur (Started ph st # es) =
     (cur = phase_label ph \<and> st = Some (phase_label ph) \<and> polled m cur es)"
| "polled m cur (e # es) = polled m cur es"

fun is_removal :: "event \<Rightarrow> bool" where
  "is_removal (FileRemoved p) = True"
| "is_removal e = False"

section \<open>Whole-word occurrences, as the specification counts them\<close>









section \<open>Example inputs\<close>

text \<open>
  Inputs on which the definitions are run. With the services \<open>offline\<close> every request to
  the language model and to the embedding service fails in transport, the decoder reads
  three milliseconds of audio from any file and the recogniser hears two segments in it.
  \<open>upload_world\<close> holds meeting 7 in status \<open>processing\<close> and its uploaded file.
\<close>

definition offline :: env where
  "offline =
     \<lparr>loads = (\<lambda>s. None),
      embed = (\<lambda>n text. EmbedRaises RequestError),
      insights_llm = (\<lambda>t. Stream [] (Some RequestError)),
      answer_llm = (\<lambda>c q. Stream [] (Some RequestError)),
      decode = (\<lambda>p. Inr [0, 0, 0]),
      whisper = (\<lambda>a. Inr [''hello'', ''world'']),
      completion = (\<lambda>p. []),
      distance = (\<lambda>a b. 0)\<rparr>"

definition new_meeting :: meeting where
  "new_meeting =
     \<lparr>meeting_filename = ''standup.wav'', meeting_status = ''processing'',
      meeting_transcript = None, meeting_summary = None, meeting_action_items = None,
      meeting_decisions = None, meeting_keywords = None, meeting_participants = None,
      meeting_sentiment = None\<rparr>"

definition upload_world :: world where
  "upload_world =
     \<lparr>db = [7 \<mapsto> new_meeting], files = {''uploads/a.wav''}, collection = [], events = []\<rparr>"

text \<open>
  A reply of the language model: \<open>sample_text\<close> is the document the model writes,
  \<open>sample_line\<close> the streamed line that carries it as its \<open>response\<close> (with the quotes of
  the document escaped), and \<open>loads_sample\<close> is \<open>json.loads\<close> on the texts the examples
  use. With the services \<open>answering\<close> every request succeeds.
\<close>

definition sample_text :: string where
  \<open>sample_text = ''{"keywords": ["Art", "zebra", "start"], "sentiment": "Neutral"}''\<close>

definition escape_quotes :: "string \<Rightarrow> string" where
  "escape_quotes s = concat (map (\<lambda>c. if c = CHR 0x22 then [CHR 0x5C, CHR 0x22] else [c]) s)"

definition sample_line :: string where
  \<open>sample_line = ''{"response": "'' @ escape_quotes sample_text @ ''"}''\<close>

definition loads_sample :: "string \<Rightarrow> json option" where
  \<open>loads_sample s =
     (if s = sample_line then Some (JDict [(''response'', JStr sample_text)])
      else if s = sample_text
        then Some (JDict [(''keywords'', JList [JStr ''Art'', JStr ''zebra'', JStr ''start'']),
                          (''sentiment'', JStr ''Neutral'')])
      else if s = ''{"response": "{}"}'' then Some (JDict [(''response'', JStr ''{}'')])
      else if s = ''{}'' then Some (JDict [])
      else if s = ''{"response": "fine"}'' then Some (JDict [(''response'', JStr ''fine'')])
      else None)\<close>

definition answering :: env where
  \<open>answering =
     \<lparr>loads = loads_sample,
      embed = (\<lambda>n text. Embedding [1, 2]),
      insights_llm = (\<lambda>t. Stream [sample_line] None),
      answer_llm = (\<lambda>c q. Stream [''{"response": "fine"}''] None),
      decode = (\<lambda>p. Inr [0, 0, 0]),
      whisper = (\<lambda>a. Inr [''start the'', ''art project'']),
      completion = (\<lambda>p. []),
      distance = (\<lambda>a b. 0)\<rparr>\<close>

text \<open>
  \<open>indexed_world\<close>: the vector collection after meetings 8 and 7, whose transcripts share
  most of their words, were indexed.
\<close>

definition indexed_world :: world where
  "indexed_world =
     upload_world\<lparr>collection :=
       [\<lparr>entry_id = ''8_0'', entry_embedding = [1, 2],
         entry_document = ''budget review for the zoo project'', entry_meeting_id = 8\<rparr>,
        \<lparr>entry_id = ''7_0'', entry_embedding = [1, 2],
         entry_document = ''budget review for the art project'', entry_meeting_id = 7\<rparr>]\<rparr>"

text \<open>
  \<open>long_transcript\<close> has 251 words, one more than the step of the chunker, so it has two
  chunks: all of it, and its last word. With the services \<open>flaky\<close> the recogniser hears
  these 251 words and the embedding service fails in transport on the text of the
  second chunk.
\<close>

definition long_transcript :: string where
  "long_transcript = join '' '' (replicate 251 ''w'')"

definition flaky :: env where
  "flaky =
     answering\<lparr>embed := (\<lambda>n text. if text = ''w'' then EmbedRaises RequestError else Embedding [1, 2]),
               whisper := (\<lambda>a. Inr (replicate 251 ''w''))\<rparr>"

text \<open>
  With the services \<open>listing\<close> the language model answers the extraction prompt with a
  document whose \<open>summary\<close> is a list, not a string.
\<close>

definition listing_text :: string where
  \<open>listing_text = ''{"summary": ["budget", "hiring"], "sentiment": "Neutral"}''\<close>

definition listing_line :: string where
  \<open>listing_line = ''{"response": "'' @ escape_quotes listing_text @ ''"}''\<close>

definition loads_listing :: "string \<Rightarrow> json option" where
  \<open>loads_listing s =
     (if s = listing_line then Some (JDict [(''response'', JStr listing_text)])
      else if s = listing_text
        then Some (JDict [(''summary'', JList [JStr ''budget'', JStr ''hiring'']),
                          (''sentiment'', JStr ''Neutral'')])
      else None)\<close>

definition listing :: env where
  "listing = offline\<lparr>loads := loads_listing, insights_llm := (\<lambda>t. Stream [listing_line] None)\<rparr>"

section \<open>Keyword frequencies: what the post-processing returns\<close>



























section \<open>The pipeline: what a run leaves in the trace\<close>

lemma emit_simps [simp]:
  "db (emit e w) = db w" "files (emit e w) = files w" "collection (emit e w) = collection w"
  "events (emit e w) = events w @ [e]"
  by (simp_all add: emit_def)

lemma begin_phase_simps [simp]:
  "db (begin_phase ph m w) = db w" "files (begin_phase ph m w) = files w"
  "collection (begin_phase ph m w) = collection w"
  "events (begin_phase ph m w) = events w @ [Started ph (poll m w)]"
  by (simp_all add: begin_phase_def)

lemma update_status_frame [simp]:
  "files (update_status m s w) = files w" "collection (update_status m s w) = collection w"
  by (simp_all add: update_status_def split: option.splits)

lemma update_status_events:
  "events (update_status m s w) = events w @ (if db w m = None then [] else [StatusPersisted m s])"
  by (simp add: update_status_def split: option.splits)

lemma update_status_db:
  "db (update_status m s w) =
     (case db w m of None \<Rightarrow> db w | Some r \<Rightarrow> (db w)(m \<mapsto> r\<lparr>meeting_status := s\<rparr>))"
  by (simp add: update_status_def split: option.splits)

lemma update_transcript_frame [simp]:
  "files (update_transcript m t w) = files w" "collection (update_transcript m t w) = collection w"
  "events (update_transcript m t w) = events w"
  by (simp_all add: update_transcript_def split: option.splits)

lemma update_transcript_db:
  "db (update_transcript m t w) =
     (case db w m of None \<Rightarrow> db w | Some r \<Rightarrow> (db w)(m \<mapsto> r\<lparr>meeting_transcript := Some t\<rparr>))"
  by (simp add: update_transcript_def split: option.splits)

lemma update_transcript_poll [simp]: "poll m (update_transcript m t w) = poll m w"
  by (simp add: poll_def update_transcript_def split: option.splits)

lemma update_insights_frame:
  "update_insights m ins w = (r, s, w') \<Longrightarrow>
     files w' = files w \<and> collection w' = collection w \<and> events w' = events w
     \<and> (db w' m = None \<longleftrightarrow> db w m = None) \<and> poll m w' = poll m w"
  by (auto simp: update_insights_def poll_def split: option.splits json.splits if_splits)

lemma update_insights_raises:
  "update_insights m ins w = (Inl e, s, w') \<Longrightarrow>
     w' = w \<and> (s = Usable \<and> e = AttributeError \<or> s = NeedsRollback \<and> e = DBAPIError)"
  by (auto simp: update_insights_def split: option.splits json.splits if_splits)

lemma update_insights_unbindable:
  "db w m \<noteq> None \<Longrightarrow>
   \<not> (bindable (dict_get items ''summary'' JNull) \<and> bindable (dict_get items ''sentiment'' JNull))
   \<Longrightarrow> update_insights m (JDict items) w = (Inl DBAPIError, NeedsRollback, w)"
  by (auto simp: update_insights_def split: option.splits)

lemma update_insights_returns: "update_insights m ins w = (Inr u, s, w') \<Longrightarrow> s = Usable"
  by (auto simp: update_insights_def split: option.splits json.splits if_splits)

lemma get_embedding_snd [simp]: "snd (get_embedding env text w) = emit (EmbedRequest text) w"
  by (simp add: get_embedding_def)

lemma embed_all_frame:
  "embed_all env cs w = (r, w') \<Longrightarrow>
     db w' = db w \<and> files w' = files w \<and> collection w' = collection w
     \<and> (\<exists>ys. events w' = events w @ ys \<and> list_all is_request ys)"
proof (induction env cs w arbitrary: r w' rule: embed_all.induct)
  case (1 env w)
  then show ?case by auto
next
  case (2 env chunk chunks w)
  obtain r1 where g1: "get_embedding env chunk w = (r1, emit (EmbedRequest chunk) w)"
    by (metis get_embedding_snd prod.collapse)
  let ?w1 = "emit (EmbedRequest chunk) w"
  obtain r2 where g2: "get_embedding env chunk ?w1 = (r2, emit (EmbedRequest chunk) ?w1)"
    by (metis get_embedding_snd prod.collapse)
  let ?w2 = "emit (EmbedRequest chunk) ?w1"
  show ?case
  proof (cases r1)
    case (Inl e)
    with 2(3) g1 show ?thesis by auto
  next
    case (Inr v1)
    show ?thesis
    proof (cases v1)
      case None
      with Inr 2(3) g1 have "embed_all env chunks ?w1 = (r, w')" by simp
      from "2.IH"(1) [OF g1 [symmetric] Inr None this]
      show ?thesis by auto
    next
      case (Some t)
      show ?thesis
      proof (cases r2)
        case (Inl e)
        with Some Inr 2(3) g1 g2 show ?thesis by auto
      next
        case r2: (Inr v)
        obtain r3 w3 where g3: "embed_all env chunks ?w2 = (r3, w3)" by fastforce
        from "2.IH"(2) [OF g1 [symmetric] Inr Some g2 [symmetric] r2 g3]
        have f: "db w3 = db w \<and> files w3 = files w \<and> collection w3 = collection w
           \<and> (\<exists>ys. events w3 = events w @ ys \<and> list_all is_request ys)" by auto
        have "w' = w3" using Some Inr r2 2(3) g1 g2 g3 by (auto split: sum.splits)
        with f show ?thesis by simp
      qed
    qed
  qed
qed

lemma add_transcript_frame:
  "add_transcript env m t w = (r, w') \<Longrightarrow>
     db w' = db w \<and> files w' = files w
     \<and> (\<exists>ys. events w' = events w @ ys \<and> list_all is_request ys)"
proof -
  assume a: "add_transcript env m t w = (r, w')"
  show ?thesis
  proof (cases "chunk_text t 300 50 = []")
    case True
    with a show ?thesis by (auto simp: add_transcript_def)
  next
    case False
    obtain r1 w1 where e: "embed_all env (chunk_text t 300 50) w = (r1, w1)" by fastforce
    note f = embed_all_frame [OF e]
    from f obtain ys where ys: "events w1 = events w @ ys" "list_all is_request ys" by auto
    have "w' = w1 \<or> (\<exists>ids coll. w' = emit (IndexAdd ids) (w1\<lparr>collection := coll\<rparr>))"
      using a False e
      by (auto simp: add_transcript_def Let_def split: sum.splits if_splits)
    then show ?thesis
    proof
      assume "w' = w1" with f show ?thesis by auto
    next
      assume "\<exists>ids coll. w' = emit (IndexAdd ids) (w1\<lparr>collection := coll\<rparr>)"
      then obtain ids coll where w': "w' = emit (IndexAdd ids) (w1\<lparr>collection := coll\<rparr>)" by auto
      have "events w' = events w @ (ys @ [IndexAdd ids])" using w' ys by simp
      moreover have "list_all is_request (ys @ [IndexAdd ids])" using ys by simp
      ultimately show ?thesis using f w' by (metis (no_types, lifting) emit_simps(1,2) select_convs surjective update_convs)
    qed
  qed
qed

lemma update_status_known:
  "db w m \<noteq> None \<Longrightarrow>
     events (update_status m s w) = events w @ [StatusPersisted m s]
     \<and> db (update_status m s w) m \<noteq> None"
  by (auto simp: update_status_def split: option.splits)

lemma update_status_now:
  "db w m \<noteq> None \<Longrightarrow> \<exists>r. db (update_status m s w) m = Some r \<and> meeting_status r = s"
  by (auto simp: update_status_def split: option.splits)

lemma update_status_poll: "db w m \<noteq> None \<Longrightarrow> poll m (update_status m s w) = Some s"
  by (auto simp: update_status_def poll_def split: option.splits)

lemma update_transcript_known: "db w m \<noteq> None \<Longrightarrow> db (update_transcript m t w) m \<noteq> None"
  by (auto simp: update_transcript_def split: option.splits)

lemma poll_emit [simp]: "poll m (emit e w) = poll m w" "poll m (begin_phase ph m' w) = poll m w"
  by (simp_all add: poll_def)

lemma poll_row: "poll m w = Some s \<longleftrightarrow> (\<exists>r. db w m = Some r \<and> meeting_status r = s)"
  by (auto simp: poll_def)

lemma remove_upload_simps:
  "events (remove_upload fp w) = events w @ (if fp \<in> files w then [FileRemoved fp] else [])"
  "files (remove_upload fp w) = files w - {fp}"
  "db (remove_upload fp w) = db w"
  by (auto simp: remove_upload_def)

lemma remove_upload_poll [simp]: "poll m (remove_upload fp w) = poll m w"
  by (simp add: poll_def remove_upload_simps)

lemma run_trace:
  assumes m: "db w mid \<noteq> None"
  shows "\<exists>xs fin. events (snd (run env mid fp w))
             = events w @ xs @ (if fp \<in> files w then [FileRemoved fp] else [])
      \<and> files (snd (run env mid fp w)) = files w - {fp}
      \<and> poll mid (snd (run env mid fp w)) = Some fin
      \<and> ((\<exists>e. transcribe env fp = Inl e) \<and> fst (run env mid fp w) = Inr () \<and> fin = ''failed''
            \<and> xs = [StatusPersisted mid ''transcribing'', Started Transcription (Some ''transcribing''),
                     StatusPersisted mid ''failed'']
          \<or> (\<exists>T. transcribe env fp = Inr T) \<and> fst (run env mid fp w) = Inr () \<and> fin = ''failed''
               \<and> (\<exists>T. xs = [StatusPersisted mid ''transcribing'', Started Transcription (Some ''transcribing''),
                        StatusPersisted mid ''analyzing'', Started Extraction (Some ''analyzing''),
                        ExtractRequest T, StatusPersisted mid ''failed''])
          \<or> (\<exists>T. transcribe env fp = Inr T) \<and> fst (run env mid fp w) = Inl PendingRollbackError
               \<and> fin = ''analyzing''
               \<and> (\<exists>T. xs = [StatusPersisted mid ''transcribing'', Started Transcription (Some ''transcribing''),
                        StatusPersisted mid ''analyzing'', Started Extraction (Some ''analyzing''),
                        ExtractRequest T])
          \<or> (\<exists>T. transcribe env fp = Inr T) \<and> fst (run env mid fp w) = Inr ()
               \<and> (fin = ''failed'' \<or> fin = ''completed'')
               \<and> (\<exists>T ys. list_all is_request ys
                    \<and> xs = [StatusPersisted mid ''transcribing'', Started Transcription (Some ''transcribing''),
                        StatusPersisted mid ''analyzing'', Started Extraction (Some ''analyzing''),
                        ExtractRequest T, Started Indexing (Some ''analyzing'')] @ ys
                        @ [StatusPersisted mid fin]))"
proof -
  let ?tr = "StatusPersisted mid ''transcribing''"
  let ?an = "StatusPersisted mid ''analyzing''"
  let ?fl = "StatusPersisted mid ''failed''"
  let ?st = "Started Transcription (Some ''transcribing'')"
  let ?se = "Started Extraction (Some ''analyzing'')"
  let ?si = "Started Indexing (Some ''analyzing'')"
  let ?w0 = "update_status mid ''transcribing'' w"
  let ?w1 = "begin_phase Transcription mid ?w0"
  have e1: "events ?w1 = events w @ [?tr, ?st]"
    and d1: "db ?w1 mid \<noteq> None" and f1: "files ?w1 = files w"
    using update_status_known [OF m, of "''transcribing''"] update_status_poll [OF m, of "''transcribing''"]
    by auto
  show ?thesis
  proof (cases "transcribe env fp")
    case (Inl e)
    then have r: "run env mid fp w = (Inr (), remove_upload fp (update_status mid ''failed'' ?w1))"
      by (simp add: run_def run_try_def Let_def)
    have "events (update_status mid ''failed'' ?w1) = events w @ [?tr, ?st, ?fl]"
      using update_status_known [OF d1, of "''failed''"] e1 by simp
    then show ?thesis using Inl f1 update_status_poll [OF d1, of "''failed''"]
      by (auto simp: r remove_upload_simps)
  next
    case (Inr T)
    let ?w2 = "update_transcript mid T ?w1"
    let ?w3 = "begin_phase Extraction mid (update_status mid ''analyzing'' ?w2)"
    have d2: "db ?w2 mid \<noteq> None"
      using d1 by (rule update_transcript_known)
    have e3: "events ?w3 = events w @ [?tr, ?st, ?an, ?se]"
      and d3: "db ?w3 mid \<noteq> None" and f3: "files ?w3 = files w"
      and p3: "poll mid ?w3 = Some ''analyzing''"
      using update_status_known [OF d2, of "''analyzing''"] update_status_poll [OF d2, of "''analyzing''"]
        e1 f1 by auto
    let ?w4 = "emit (ExtractRequest T) ?w3"
    have x: "extract_insights env T ?w3 = (fst (extract_insights env T ?w3), ?w4)"
      by (simp add: extract_insights_def Let_def)
    have e4: "events ?w4 = events w @ [?tr, ?st, ?an, ?se, ExtractRequest T]"
      and d4: "db ?w4 mid \<noteq> None" and f4: "files ?w4 = files w"
      and p4: "poll mid ?w4 = Some ''analyzing''"
      using e3 d3 f3 p3 by auto
    have fail4: "events (update_status mid ''failed'' ?w4)
        = events w @ [?tr, ?st, ?an, ?se, ExtractRequest T, ?fl]"
      using update_status_known [OF d4, of "''failed''"] e4 by simp
    have failed: ?thesis
      if r: "run env mid fp w = (Inr (), remove_upload fp (update_status mid ''failed'' ?w4))"
      using Inr fail4 f4 update_status_poll [OF d4, of "''failed''"]
      by (auto simp: r remove_upload_simps)
    show ?thesis
    proof (cases "fst (extract_insights env T ?w3)")
      case xl: (Inl e)
      have "run env mid fp w = (Inr (), remove_upload fp (update_status mid ''failed'' ?w4))"
        using Inr x xl by (simp add: run_def run_try_def Let_def)
      then show ?thesis by (rule failed)
    next
      case xr: (Inr ins)
      obtain r5 s5 w5 where u: "update_insights mid ins ?w4 = (r5, s5, w5)"
        by (metis prod.collapse)
      show ?thesis
      proof (cases r5)
        case ul: (Inl e)
        from update_insights_raises [OF u [unfolded ul]]
        have w5: "w5 = ?w4" and s5: "s5 = Usable \<or> s5 = NeedsRollback" by auto
        show ?thesis
        proof (cases s5)
          case Usable
          have "run env mid fp w = (Inr (), remove_upload fp (update_status mid ''failed'' ?w4))"
            using Inr x xr u ul w5 Usable by (simp add: run_def run_try_def Let_def)
          then show ?thesis by (rule failed)
        next
          case NeedsRollback
          have r: "run env mid fp w = (Inl PendingRollbackError, remove_upload fp ?w4)"
            using Inr x xr u ul w5 NeedsRollback by (simp add: run_def run_try_def Let_def)
          show ?thesis using Inr e4 f4 p4
            by (auto simp: r remove_upload_simps)
        qed
      next
        case ur: (Inr u5)
        note uf = update_insights_frame [OF u]
        let ?w5 = "begin_phase Indexing mid w5"
        obtain r6 w6 where a: "add_transcript env mid T ?w5 = (r6, w6)" by fastforce
        from add_transcript_frame [OF a] obtain ys where
          d6: "db w6 = db ?w5" and f6: "files w6 = files ?w5"
          and e6: "events w6 = events ?w5 @ ys" and ys: "list_all is_request ys" by auto
        have d6': "db w6 mid \<noteq> None" using d6 uf d4 by simp
        have f6': "files w6 = files w" using f6 uf f4 by simp
        have p5: "poll mid w5 = Some ''analyzing''" using uf p4 by simp
        have e6': "events w6 = events w @ [?tr, ?st, ?an, ?se, ExtractRequest T, ?si] @ ys"
          using e6 uf e4 p5 by simp
        obtain s where s: "s = (case r6 of Inl e \<Rightarrow> ''failed'' | Inr u \<Rightarrow> ''completed'')" by simp
        have s5: "s5 = Usable" using u ur by (auto dest: update_insights_returns)
        have r: "run env mid fp w = (Inr (), remove_upload fp (update_status mid s w6))"
          using Inr x xr u ur a s s5 by (simp add: run_def run_try_def Let_def split: sum.splits)
        have s': "s = ''failed'' \<or> s = ''completed''" using s by (simp split: sum.splits)
        have ev: "events (update_status mid s w6) =
                events w @ ([?tr, ?st, ?an, ?se, ExtractRequest T, ?si] @ ys @ [StatusPersisted mid s])"
          using update_status_known [OF d6', of s] e6' by simp
        let ?xs = "[?tr, ?st, ?an, ?se, ExtractRequest T, ?si] @ ys @ [StatusPersisted mid s]"
        have c1: "events (snd (run env mid fp w))
             = events w @ ?xs @ (if fp \<in> files w then [FileRemoved fp] else [])"
          using ev f6' by (simp add: r remove_upload_simps)
        have c2: "files (snd (run env mid fp w)) = files w - {fp}"
          using f6' by (simp add: r remove_upload_simps)
        have c3: "poll mid (snd (run env mid fp w)) = Some s"
          using update_status_poll [OF d6', of s] by (simp add: r)
        have c4: "fst (run env mid fp w) = Inr ()" by (simp add: r)
        have c5: "\<exists>T' ys'. list_all is_request ys'
                    \<and> ?xs = [?tr, ?st, ?an, ?se, ExtractRequest T', ?si] @ ys' @ [StatusPersisted mid s]"
          using ys by (intro exI [of _ T] exI [of _ ys]) simp
        have c0: "\<exists>T. transcribe env fp = Inr T" using Inr by simp
        have fin: "(\<exists>T. transcribe env fp = Inr T) \<and> fst (run env mid fp w) = Inr ()
               \<and> (s = ''failed'' \<or> s = ''completed'')
               \<and> (\<exists>T' ys'. list_all is_request ys'
                    \<and> ?xs = [?tr, ?st, ?an, ?se, ExtractRequest T', ?si] @ ys' @ [StatusPersisted mid s])"
          by (rule conjI [OF c0 conjI [OF c4 conjI [OF s' c5]]])
        show ?thesis
          apply (rule exI [of _ ?xs], rule exI [of _ s])
          apply (intro conjI)
             apply (rule c1)
            apply (rule c2)
           apply (rule c3)
          apply (rule disjI2, rule disjI2, rule disjI2)
          apply (rule fin)
          done
      qed
    qed
  qed
qed

lemma statuses_append: "statuses m (xs @ ys) = statuses m xs @ statuses m ys"
  by (induction m xs rule: statuses.induct) auto

lemma statuses_requests: "list_all is_request ys \<Longrightarrow> statuses m ys = []"
  by (induction m ys rule: statuses.induct) auto





lemma polled_removal: "polled m cur [FileRemoved p]"
  by simp

lemma requests_no_removal: "list_all is_request ys \<Longrightarrow> filter is_removal ys = []"
  by (induction ys) (auto elim: is_request.elims)

lemma run_try_frame:
  assumes "run_try env mid fp w = (r, s, w')"
  shows "files w' = files w \<and> (\<exists>xs. events w' = events w @ xs \<and> filter is_removal xs = [])"
proof -
  define P where "P a b \<longleftrightarrow> files b = files a \<and> (\<exists>xs. events b = events a @ xs \<and> filter is_removal xs = [])"
    for a b :: world
  have refl: "P a a" for a by (simp add: P_def)
  have trans: "P a b \<Longrightarrow> P b c \<Longrightarrow> P a c" for a b c
    by (auto simp: P_def)
  have st: "P a (update_status m s a)" for a m s
    by (simp add: P_def update_status_events)
  have tr: "P a (update_transcript m t a)" for a m t by (simp add: P_def)
  have em: "\<not> is_removal e \<Longrightarrow> P a (emit e a)" for a e by (simp add: P_def)
  have bp: "P a (begin_phase ph m a)" for a ph m by (simp add: P_def)
  have ui: "update_insights m i a = (x, s, b) \<Longrightarrow> P a b" for m i a x s b
    using update_insights_frame [of m i a x s b] by (simp add: P_def)
  have at: "add_transcript env m t a = (x, b) \<Longrightarrow> P a b" for m t a x b
    using add_transcript_frame [of env m t a x b] requests_no_removal by (auto simp: P_def)
  let ?w1 = "begin_phase Transcription mid (update_status mid ''transcribing'' w)"
  have p1: "P w ?w1" by (rule trans [OF st bp])
  show ?thesis
  proof (cases "transcribe env fp")
    case (Inl e)
    with assms have "w' = ?w1" by (simp add: run_try_def Let_def)
    with p1 show ?thesis by (simp add: P_def)
  next
    case (Inr T)
    let ?w3 = "begin_phase Extraction mid
                 (update_status mid ''analyzing'' (update_transcript mid T ?w1))"
    let ?w4 = "emit (ExtractRequest T) ?w3"
    have p3: "P w ?w3" by (rule trans [OF p1 trans [OF tr trans [OF st bp]]])
    have p4: "P w ?w4" by (rule trans [OF p3 em]) simp
    have x: "extract_insights env T ?w3 = (fst (extract_insights env T ?w3), ?w4)"
      by (simp add: extract_insights_def Let_def)
    show ?thesis
    proof (cases "fst (extract_insights env T ?w3)")
      case xl: (Inl e)
      with assms Inr x have "w' = ?w4" by (simp add: run_try_def Let_def)
      with p4 show ?thesis by (simp add: P_def)
    next
      case xr: (Inr ins)
      obtain r5 s5 w5 where u: "update_insights mid ins ?w4 = (r5, s5, w5)"
        by (metis prod.collapse)
      have p5: "P w w5" by (rule trans [OF p4 ui [OF u]])
      show ?thesis
      proof (cases r5)
        case ul: (Inl e)
        with assms Inr x xr u have "w' = w5" by (simp add: run_try_def Let_def)
        with p5 show ?thesis by (simp add: P_def)
      next
        case ur: (Inr u5)
        obtain r6 w6 where a: "add_transcript env mid T (begin_phase Indexing mid w5) = (r6, w6)"
          by fastforce
        have p6: "P w w6"
          by (rule trans [OF p5 trans [OF bp at [OF a]]])
        have "w' = w6 \<or> w' = update_status mid ''completed'' w6"
          using assms Inr x xr u ur a by (auto simp: run_try_def Let_def split: sum.splits)
        then have "P w w'" using p6 trans [OF p6 st] by auto
        then show ?thesis by (simp add: P_def)
      qed
    qed
  qed
qed

lemma run_frame:
  "files (snd (run env mid fp w)) = files w - {fp}
   \<and> (\<exists>xs. events (snd (run env mid fp w))
              = events w @ xs @ (if fp \<in> files w then [FileRemoved fp] else [])
         \<and> filter is_removal xs = [])"
proof -
  obtain r s w1 where t: "run_try env mid fp w = (r, s, w1)" by (metis prod.collapse)
  from run_try_frame [OF t] obtain xs where
    f: "files w1 = files w" and e: "events w1 = events w @ xs" and n: "filter is_removal xs = []"
    by auto
  have plain: ?thesis if r: "snd (run env mid fp w) = remove_upload fp w1"
    using f e n unfolding r remove_upload_simps by (metis append.assoc)
  show ?thesis
  proof (cases r)
    case (Inl err)
    show ?thesis
    proof (cases s)
      case Usable
      then have r: "snd (run env mid fp w) = remove_upload fp (update_status mid ''failed'' w1)"
        using t Inl by (simp add: run_def)
      have "events (update_status mid ''failed'' w1)
            = events w @ (xs @ (if db w1 mid = None then [] else [StatusPersisted mid ''failed'']))"
        using e by (simp add: update_status_events)
      moreover have "filter is_removal (xs @ (if db w1 mid = None then [] else [StatusPersisted mid ''failed''])) = []"
        using n by simp
      ultimately show ?thesis using f unfolding r remove_upload_simps update_status_frame
        by (metis append.assoc)
    next
      case NeedsRollback
      then have "snd (run env mid fp w) = remove_upload fp w1" using t Inl by (simp add: run_def)
      then show ?thesis by (rule plain)
    qed
  next
    case (Inr u)
    then have "snd (run env mid fp w) = remove_upload fp w1" using t by (simp add: run_def)
    then show ?thesis by (rule plain)
  qed
qed

lemma count_removal: "filter is_removal xs = [] \<Longrightarrow> count_list xs (FileRemoved p) = 0"
  by (induction xs) (auto split: if_splits)

lemma run_ends:
  assumes "db w mid \<noteq> None" and "fst (run env mid fp w) = Inr ()"
  shows "poll mid (snd (run env mid fp w)) = Some ''completed''
       \<or> poll mid (snd (run env mid fp w)) = Some ''failed''"
proof -
  from run_trace [OF assms(1), of env fp] obtain xs fin where
    p: "poll mid (snd (run env mid fp w)) = Some fin"
    and sh: "(fst (run env mid fp w) = Inr () \<and> fin = ''failed'')
        \<or> (fst (run env mid fp w) = Inr () \<and> fin = ''failed'')
        \<or> (fst (run env mid fp w) = Inl PendingRollbackError)
        \<or> (fin = ''failed'' \<or> fin = ''completed'')"
    by (elim exE conjE disjE) auto
  from sh assms(2) have "fin = ''failed'' \<or> fin = ''completed''" by auto
  with p show ?thesis by auto
qed

text \<open>
  C8. A run on a meeting and the path of an upload that exists removes that file exactly
  once, as its last effect, and removes no other file, whatever the services answer and
  whether the run returns or raises. When the meeting exists and the run returns, the
  row is in status \<open>completed\<close> or \<open>failed\<close>.
\<close>

theorem upload_removed_once:
  assumes "fp \<in> files w"
  shows "fp \<notin> files (snd (run env mid fp w))
       \<and> files (snd (run env mid fp w)) = files w - {fp}
       \<and> (\<exists>xs. events (snd (run env mid fp w)) = events w @ xs
              \<and> last xs = FileRemoved fp
              \<and> (\<forall>p. count_list xs (FileRemoved p) = (if p = fp then 1 else 0)))
       \<and> (db w mid \<noteq> None \<and> fst (run env mid fp w) = Inr () \<longrightarrow>
            (\<exists>r. db (snd (run env mid fp w)) mid = Some r
                 \<and> (meeting_status r = ''completed'' \<or> meeting_status r = ''failed'')))"
proof -
  from run_frame [of env mid fp w] assms obtain xs where
    f: "files (snd (run env mid fp w)) = files w - {fp}"
    and e: "events (snd (run env mid fp w)) = events w @ xs @ [FileRemoved fp]"
    and n: "filter is_removal xs = []" by auto
  have c: "\<forall>p. count_list (xs @ [FileRemoved fp]) (FileRemoved p) = (if p = fp then 1 else 0)"
    using count_removal [OF n] by simp
  have 3: "\<exists>ys. events (snd (run env mid fp w)) = events w @ ys
              \<and> last ys = FileRemoved fp
              \<and> (\<forall>p. count_list ys (FileRemoved p) = (if p = fp then 1 else 0))"
    by (rule exI [of _ "xs @ [FileRemoved fp]"]) (use e c in simp)
  have 4: "db w mid \<noteq> None \<and> fst (run env mid fp w) = Inr () \<longrightarrow>
            (\<exists>r. db (snd (run env mid fp w)) mid = Some r
                 \<and> (meeting_status r = ''completed'' \<or> meeting_status r = ''failed''))"
  proof
    assume a: "db w mid \<noteq> None \<and> fst (run env mid fp w) = Inr ()"
    from run_ends [OF a [THEN conjunct1] a [THEN conjunct2]]
    show "\<exists>r. db (snd (run env mid fp w)) mid = Some r
                 \<and> (meeting_status r = ''completed'' \<or> meeting_status r = ''failed'')"
      unfolding poll_row by auto
  qed
  from f 3 4 show ?thesis by simp
qed

lemma follow_chains:
  "successively may_follow [''processing'', ''transcribing'', ''failed'']"
  "successively may_follow [''processing'', ''transcribing'', ''analyzing'', ''failed'']"
  "successively may_follow [''processing'', ''transcribing'', ''analyzing'', ''completed'']"
  "successively may_follow [''processing'', ''transcribing'', ''analyzing'']"
  by (simp_all add: may_follow_def)



section \<open>The definitions run on the example inputs\<close>

lemma offline_fields:
  "loads offline = (\<lambda>s. None)" "embed offline = (\<lambda>n text. EmbedRaises RequestError)"
  "insights_llm offline = (\<lambda>t. Stream [] (Some RequestError))"
  "answer_llm offline = (\<lambda>c q. Stream [] (Some RequestError))"
  "decode offline = (\<lambda>p. Inr [0, 0, 0])" "whisper offline = (\<lambda>a. Inr [''hello'', ''world''])"
  "completion offline = (\<lambda>p. [])" "distance offline = (\<lambda>a b. 0)"
  by (simp_all add: offline_def)

lemma offline_transcribe: "transcribe offline ''uploads/a.wav'' = Inr ''hello world''"
  by (simp add: transcribe_def offline_fields split_audio_def range_step.simps gather_def transcribe_chunk_def)

lemma hello_chunks: "chunk_text ''hello world'' 300 50 = [''hello world'']"
  by (simp add: chunk_text_def split_def is_space_def range_step.simps)

lemma offline_run:
  "events (snd (run offline 7 ''uploads/a.wav'' upload_world)) =
   [StatusPersisted 7 ''transcribing'', Started Transcription (Some ''transcribing''),
    StatusPersisted 7 ''analyzing'', Started Extraction (Some ''analyzing''),
    ExtractRequest ''hello world'', Started Indexing (Some ''analyzing''),
    EmbedRequest ''hello world'', StatusPersisted 7 ''completed'', FileRemoved ''uploads/a.wav'']"
  "fst (run offline 7 ''uploads/a.wav'' upload_world) = Inr ()"
  by (simp_all add: run_def run_try_def offline_transcribe hello_chunks update_status_def
        update_transcript_def upload_world_def begin_phase_def poll_def
        extract_insights_def read_reply_def offline_fields caught_def sentinel_def update_insights_def
        add_transcript_def get_embedding_def remove_upload_def emit_def Let_def dict_get_def)

lemma failing_decode_run:
  "events (snd (run (offline\<lparr>decode := \<lambda>p. Inl OtherError\<rparr>) 7 ''uploads/a.wav'' upload_world)) =
   [StatusPersisted 7 ''transcribing'', Started Transcription (Some ''transcribing''),
    StatusPersisted 7 ''failed'', FileRemoved ''uploads/a.wav'']"
  "fst (run (offline\<lparr>decode := \<lambda>p. Inl OtherError\<rparr>) 7 ''uploads/a.wav'' upload_world) = Inr ()"
  by (simp_all add: run_def run_try_def transcribe_def update_status_def upload_world_def
        begin_phase_def poll_def remove_upload_def emit_def Let_def)


lemma listing_fields:
  "loads listing = loads_listing" "insights_llm listing = (\<lambda>t. Stream [listing_line] None)"
  "decode listing = (\<lambda>p. Inr [0, 0, 0])" "whisper listing = (\<lambda>a. Inr [''hello'', ''world''])"
  "completion listing = (\<lambda>p. [])" "embed listing = (\<lambda>n text. EmbedRaises RequestError)"
  by (simp_all add: listing_def offline_def)

lemma listing_transcribe: "transcribe listing ''uploads/a.wav'' = Inr ''hello world''"
  by (simp add: transcribe_def listing_fields split_audio_def range_step.simps gather_def transcribe_chunk_def)

lemma listing_line_not_blank: "\<not> list_all is_space listing_line"
  by (simp add: listing_line_def is_space_def)

lemma listing_differs: "listing_text \<noteq> listing_line"
  by (simp add: listing_text_def listing_line_def escape_quotes_def)

lemma listing_reply: "read_reply loads_listing (Stream [listing_line] None) = Inr listing_text"
  by (simp add: read_reply_def listing_line_not_blank loads_listing_def dict_get_def)

lemma listing_extract:
  "fst (extract_insights listing T w) =
     Inr (JDict [(''summary'', JList [JStr ''budget'', JStr ''hiring'']), (''sentiment'', JStr ''Neutral'')])"
  by (simp add: extract_insights_def Let_def listing_fields listing_reply loads_listing_def
        listing_differs annotate_keywords_def)

lemma listing_run:
  "events (snd (run listing 7 ''uploads/a.wav'' upload_world)) =
   [StatusPersisted 7 ''transcribing'', Started Transcription (Some ''transcribing''),
    StatusPersisted 7 ''analyzing'', Started Extraction (Some ''analyzing''),
    ExtractRequest ''hello world'', FileRemoved ''uploads/a.wav'']"
  "fst (run listing 7 ''uploads/a.wav'' upload_world) = Inl PendingRollbackError"
  "poll 7 (snd (run listing 7 ''uploads/a.wav'' upload_world)) = Some ''analyzing''"
proof -
  let ?w3 = "begin_phase Extraction 7 (update_status 7 ''analyzing''
      (update_transcript 7 ''hello world''
         (begin_phase Transcription 7 (update_status 7 ''transcribing'' upload_world))))"
  have x: "extract_insights listing ''hello world'' ?w3 =
      (Inr (JDict [(''summary'', JList [JStr ''budget'', JStr ''hiring'']), (''sentiment'', JStr ''Neutral'')]),
       emit (ExtractRequest ''hello world'') ?w3)"
    using listing_extract [of "''hello world''" ?w3]
    by (metis (no_types, lifting) extract_insights_def prod.collapse snd_conv)
  have d: "db (emit (ExtractRequest ''hello world'') ?w3) 7 \<noteq> None"
    by (simp add: update_status_def update_transcript_def upload_world_def)
  have u: "update_insights 7
      (JDict [(''summary'', JList [JStr ''budget'', JStr ''hiring'']), (''sentiment'', JStr ''Neutral'')])
      (emit (ExtractRequest ''hello world'') ?w3)
      = (Inl DBAPIError, NeedsRollback, emit (ExtractRequest ''hello world'') ?w3)"
    by (rule update_insights_unbindable [OF d]) (simp add: dict_get_def)
  have r: "run listing 7 ''uploads/a.wav'' upload_world
      = (Inl PendingRollbackError, remove_upload ''uploads/a.wav'' (emit (ExtractRequest ''hello world'') ?w3))"
    by (simp add: run_def run_try_def Let_def listing_transcribe x u)
  show "events (snd (run listing 7 ''uploads/a.wav'' upload_world)) =
   [StatusPersisted 7 ''transcribing'', Started Transcription (Some ''transcribing''),
    StatusPersisted 7 ''analyzing'', Started Extraction (Some ''analyzing''),
    ExtractRequest ''hello world'', FileRemoved ''uploads/a.wav'']"
    unfolding r
    by (simp add: remove_upload_simps update_status_def update_transcript_def upload_world_def
          poll_def)
  show "fst (run listing 7 ''uploads/a.wav'' upload_world) = Inl PendingRollbackError"
    unfolding r by simp
  show "poll 7 (snd (run listing 7 ''uploads/a.wav'' upload_world)) = Some ''analyzing''"
    unfolding r by (simp add: poll_def remove_upload_simps update_status_def update_transcript_def upload_world_def)
qed


theorem upload_removed_once_witness:
  "''uploads/a.wav'' \<in> files upload_world
   \<and> ''uploads/a.wav'' \<notin> files (snd (run offline 7 ''uploads/a.wav'' upload_world))
   \<and> (\<exists>xs. events (snd (run offline 7 ''uploads/a.wav'' upload_world)) = events upload_world @ xs
          \<and> last xs = FileRemoved ''uploads/a.wav''
          \<and> (\<forall>p. count_list xs (FileRemoved p) = (if p = ''uploads/a.wav'' then 1 else 0)))
   \<and> db upload_world 7 \<noteq> None \<and> fst (run offline 7 ''uploads/a.wav'' upload_world) = Inr ()
   \<and> (\<exists>r. db (snd (run offline 7 ''uploads/a.wav'' upload_world)) 7 = Some r
          \<and> (meeting_status r = ''completed'' \<or> meeting_status r = ''failed''))
   \<and> count_list (events (snd (run offline 7 ''uploads/a.wav'' upload_world)))
        (FileRemoved ''uploads/a.wav'') = 1
   \<and> fst (run (offline\<lparr>decode := \<lambda>p. Inl OtherError\<rparr>) 7 ''uploads/a.wav'' upload_world) = Inr ()
   \<and> count_list (events (snd (run (offline\<lparr>decode := \<lambda>p. Inl OtherError\<rparr>) 7 ''uploads/a.wav''
        upload_world))) (FileRemoved ''uploads/a.wav'') = 1
   \<and> fst (run listing 7 ''uploads/a.wav'' upload_world) = Inl PendingRollbackError
   \<and> ''uploads/a.wav'' \<notin> files (snd (run listing 7 ''uploads/a.wav'' upload_world))
   \<and> (\<exists>xs. events (snd (run listing 7 ''uploads/a.wav'' upload_world)) = events upload_world @ xs
          \<and> last xs = FileRemoved ''uploads/a.wav''
          \<and> (\<forall>p. count_list xs (FileRemoved p) = (if p = ''uploads/a.wav'' then 1 else 0)))
   \<and> count_list (events (snd (run listing 7 ''uploads/a.wav'' upload_world)))
        (FileRemoved ''uploads/a.wav'') = 1"
proof -
  have a: "''uploads/a.wav'' \<in> files upload_world" by (simp add: upload_world_def)
  have d: "db upload_world 7 \<noteq> None" by (simp add: upload_world_def)
  note t = upload_removed_once [OF a, of offline 7]
  note l = upload_removed_once [OF a, of listing 7]
  have 1: "\<exists>r. db (snd (run offline 7 ''uploads/a.wav'' upload_world)) 7 = Some r
          \<and> (meeting_status r = ''completed'' \<or> meeting_status r = ''failed'')"
    using t [THEN conjunct2, THEN conjunct2, THEN conjunct2] d offline_run(2) by simp
  have 2: "count_list (events (snd (run offline 7 ''uploads/a.wav'' upload_world)))
        (FileRemoved ''uploads/a.wav'') = 1"
    by (simp add: offline_run)
  have 3: "count_list (events (snd (run (offline\<lparr>decode := \<lambda>p. Inl OtherError\<rparr>) 7 ''uploads/a.wav''
        upload_world))) (FileRemoved ''uploads/a.wav'') = 1"
    by (simp add: failing_decode_run)
  have 4: "count_list (events (snd (run listing 7 ''uploads/a.wav'' upload_world)))
        (FileRemoved ''uploads/a.wav'') = 1"
    by (simp add: listing_run)
  show ?thesis
    by (intro conjI a d 1 2 3 4 t [THEN conjunct1] l [THEN conjunct1]
          t [THEN conjunct2, THEN conjunct2, THEN conjunct1]
          l [THEN conjunct2, THEN conjunct2, THEN conjunct1]
          offline_run failing_decode_run listing_run)
qed

section \<open>InsightExtractor: what extract returns\<close>

lemma frequencies_error: "frequencies ks t = Inl e \<Longrightarrow> e = AttributeError"
  by (induction ks t rule: frequencies.induct) (auto simp: Let_def split: sum.splits)

lemma calculate_error: "calculate_keyword_frequency ks t = Inl e \<Longrightarrow> e = AttributeError"
  by (auto simp: calculate_keyword_frequency_def split: sum.splits dest: frequencies_error)

lemma extract_insights_fst:
  "fst (extract_insights env T w) =
     (case (case read_reply (loads env) (insights_llm env T) of
              Inl e \<Rightarrow> Inl e
            | Inr text \<Rightarrow>
                (case loads env text of
                   None \<Rightarrow> Inl JSONDecodeError
                 | Some insights \<Rightarrow> annotate_keywords insights T)) of
        Inl e \<Rightarrow> if caught e then Inr sentinel else Inl e
      | Inr insights \<Rightarrow> Inr insights)"
  by (simp add: extract_insights_def Let_def)

lemma extract_insights_snd: "snd (extract_insights env T w) = emit (ExtractRequest T) w"
  by (simp add: extract_insights_def Let_def)

lemma annotate_dict:
  "annotate_keywords (JDict items) T =
     (case map_of items ''keywords'' of
        Some (JList ks) \<Rightarrow>
          (case calculate_keyword_frequency ks T of
             Inl e \<Rightarrow> Inl e
           | Inr fs \<Rightarrow> Inr (JDict (AList.update ''keywords'' (JList (map entry_json fs)) items)))
      | _ \<Rightarrow> Inr (JDict items))"
  by (auto simp: annotate_keywords_def split: option.splits json.splits sum.splits)

text \<open>
  C10. When the reply of the model is read and parsed to a JSON object, \<open>extract\<close> returns
  that object unchanged unless it has the key \<open>keywords\<close> with a list as its value: keywords
  that are absent or not a list are not counted, not sorted and not cut to seven. Only
  for a list the value is replaced by the frequency entries (or \<open>AttributeError\<close> goes up,
  when the list holds something that is not a string).
\<close>

theorem extract_keywords_guard:
  assumes "read_reply (loads env) (insights_llm env T) = Inr text"
      and "loads env text = Some (JDict items)"
  shows "fst (extract_insights env T w) =
           (case map_of items ''keywords'' of
              Some (JList ks) \<Rightarrow>
                (case calculate_keyword_frequency ks T of
                   Inl e \<Rightarrow> Inl AttributeError
                 | Inr fs \<Rightarrow>
                     Inr (JDict (AList.update ''keywords'' (JList (map entry_json fs)) items)))
            | _ \<Rightarrow> Inr (JDict items))"
proof (cases "\<exists>ks. map_of items ''keywords'' = Some (JList ks)")
  case True
  then obtain ks where k: "map_of items ''keywords'' = Some (JList ks)" by auto
  show ?thesis
  proof (cases "calculate_keyword_frequency ks T")
    case (Inl e)
    then have "e = AttributeError" by (rule calculate_error)
    then show ?thesis using assms k Inl
      by (simp add: extract_insights_fst annotate_dict caught_def)
  next
    case (Inr fs)
    then show ?thesis using assms k
      by (simp add: extract_insights_fst annotate_dict)
  qed
next
  case False
  then have "annotate_keywords (JDict items) T = Inr (JDict items)"
    by (auto simp: annotate_dict split: option.splits json.splits)
  moreover have "(case map_of items ''keywords'' of
              Some (JList ks) \<Rightarrow>
                (case calculate_keyword_frequency ks T of
                   Inl e \<Rightarrow> Inl AttributeError
                 | Inr fs \<Rightarrow>
                     Inr (JDict (AList.update ''keywords'' (JList (map entry_json fs)) items)))
            | _ \<Rightarrow> Inr (JDict items)) = Inr (JDict items)"
    using False by (auto split: option.splits json.splits)
  ultimately show ?thesis using assms by (simp add: extract_insights_fst)
qed

lemma answering_fields:
  "loads answering = loads_sample" "embed answering = (\<lambda>n text. Embedding [1, 2])"
  "insights_llm answering = (\<lambda>t. Stream [sample_line] None)"
  "decode answering = (\<lambda>p. Inr [0, 0, 0])"
  "whisper answering = (\<lambda>a. Inr [''start the'', ''art project''])"
  "completion answering = (\<lambda>p. [])" "distance answering = (\<lambda>a b. 0)"
  by (simp_all add: answering_def)

lemma answering_answer: \<open>answer_llm answering = (\<lambda>c q. Stream [''{"response": "fine"}''] None)\<close>
  by (simp add: answering_def)

lemma sample_line_not_blank: "\<not> list_all is_space sample_line"
  by (simp add: sample_line_def is_space_def)

lemma loads_sample_line: "loads_sample sample_line = Some (JDict [(''response'', JStr sample_text)])"
  by (simp add: loads_sample_def)

lemma sample_differs: "sample_text \<noteq> sample_line"
  by (simp add: sample_text_def sample_line_def escape_quotes_def)

lemma loads_sample_text:
  "loads_sample sample_text =
     Some (JDict [(''keywords'', JList [JStr ''Art'', JStr ''zebra'', JStr ''start'']),
                  (''sentiment'', JStr ''Neutral'')])"
  by (simp add: loads_sample_def sample_differs)

lemma answering_reply:
  "read_reply (loads answering) (insights_llm answering T) = Inr sample_text"
  by (simp add: read_reply_def answering_fields sample_line_not_blank loads_sample_line dict_get_def)

lemma sample_counts:
  "calculate_keyword_frequency [JStr ''Art'', JStr ''zebra'', JStr ''start''] ''start the art project''
     = Inr [(''Art'', 1), (''start'', 1)]"
  by code_simp

lemma empty_reply:
  \<open>read_reply (loads (answering\<lparr>insights_llm := \<lambda>t. Stream [''{"response": "{}"}''] None\<rparr>))
      (insights_llm (answering\<lparr>insights_llm := \<lambda>t. Stream [''{"response": "{}"}''] None\<rparr>) T) = Inr ''{}''\<close>
  by (simp add: read_reply_def answering_fields loads_sample_def sample_line_def sample_text_def
        escape_quotes_def is_space_def dict_get_def)

lemma loads_empty: "loads_sample ''{}'' = Some (JDict [])"
  by (simp add: loads_sample_def sample_line_def sample_text_def escape_quotes_def)

theorem extract_keywords_guard_witness:
  \<open>read_reply (loads answering) (insights_llm answering ''start the art project'') = Inr sample_text
   \<and> loads answering sample_text =
        Some (JDict [(''keywords'', JList [JStr ''Art'', JStr ''zebra'', JStr ''start'']),
                     (''sentiment'', JStr ''Neutral'')])
   \<and> fst (extract_insights answering ''start the art project'' upload_world) =
        Inr (JDict [(''keywords'', JList [JDict [(''keyword'', JStr ''Art''), (''count'', JNum 1)],
                                          JDict [(''keyword'', JStr ''start''), (''count'', JNum 1)]]),
                    (''sentiment'', JStr ''Neutral'')])
   \<and> read_reply (loads (answering\<lparr>insights_llm := \<lambda>t. Stream [''{"response": "{}"}''] None\<rparr>))
        (insights_llm (answering\<lparr>insights_llm := \<lambda>t. Stream [''{"response": "{}"}''] None\<rparr>)
           ''start the art project'') = Inr ''{}''
   \<and> loads (answering\<lparr>insights_llm := \<lambda>t. Stream [''{"response": "{}"}''] None\<rparr>) ''{}''
        = Some (JDict [])
   \<and> fst (extract_insights (answering\<lparr>insights_llm := \<lambda>t. Stream [''{"response": "{}"}''] None\<rparr>)
        ''start the art project'' upload_world) = Inr (JDict [])\<close>
proof -
  let ?e = \<open>answering\<lparr>insights_llm := \<lambda>t. Stream [''{"response": "{}"}''] None\<rparr>\<close>
  have a: "read_reply (loads answering) (insights_llm answering ''start the art project'') = Inr sample_text"
    by (rule answering_reply)
  have b: "loads answering sample_text =
        Some (JDict [(''keywords'', JList [JStr ''Art'', JStr ''zebra'', JStr ''start'']),
                     (''sentiment'', JStr ''Neutral'')])"
    by (simp add: answering_fields loads_sample_text)
  have c: "read_reply (loads ?e) (insights_llm ?e ''start the art project'') = Inr ''{}''"
    by (rule empty_reply)
  have d: "loads ?e ''{}'' = Some (JDict [])"
    by (simp add: answering_fields loads_empty)
  show ?thesis
    using a b c d extract_keywords_guard [OF a b, of upload_world]
      extract_keywords_guard [OF c d, of upload_world]
    by (simp add: sample_counts entry_json_def)
qed







section \<open>VectorStoreService: what search returns and retrieves\<close>

lemma search_no_embedding:
  assumes "embed env (length (events w)) q = EmbedRaises RequestError
         \<or> embed env (length (events w)) q = EmbedRaises KeyError
         \<or> embed env (length (events w)) q = Embedding []"
  shows "search env mid q k w = (Inr ''Could not process your query.'', emit (EmbedRequest q) w)"
  using assms by (auto simp: search_def get_embedding_def)

lemma search_embed_raises:
  assumes "embed env (length (events w)) q = EmbedRaises e" and "e \<noteq> RequestError" and "e \<noteq> KeyError"
  shows "search env mid q k w = (Inl e, emit (EmbedRequest q) w)"
  using assms by (simp add: search_def get_embedding_def)

lemma search_embedded:
  assumes "embed env (length (events w)) q = Embedding qe" and "qe \<noteq> []"
  shows "search env mid q k w =
     (let w2 = emit (IndexQuery mid k) (emit (EmbedRequest q) w) in
        case collection_query env (collection w) qe k mid of
          Inl e \<Rightarrow> (Inl e, w2)
        | Inr results \<Rightarrow>
            (let context_chunks = map entry_document results
             in if context_chunks = []
                then (Inr ''I couldn't find any information related to your query in this meeting's transcript.'', w2)
                else (let context_str = join [CHR 0x0A, CHR 0x0A] context_chunks in
                        ((case read_reply (loads env) (answer_llm env context_str q) of
                            Inl e \<Rightarrow> if caught e then Inr ''There was an error generating an answer.'' else Inl e
                          | Inr full_text \<Rightarrow> Inr full_text),
                         emit (AnswerRequest context_str q) w2))))"
  using assms by (simp add: search_def get_embedding_def Let_def)

lemma search_query_raises:
  assumes "embed env (length (events w)) q = Embedding qe" and "qe \<noteq> []"
    and "collection_query env (collection w) qe k mid = Inl e"
  shows "search env mid q k w = (Inl e, emit (IndexQuery mid k) (emit (EmbedRequest q) w))"
  using assms by (simp add: search_embedded Let_def)

lemma search_nothing_found:
  assumes "embed env (length (events w)) q = Embedding qe" and "qe \<noteq> []"
    and "collection_query env (collection w) qe k mid = Inr []"
  shows "search env mid q k w =
     (Inr ''I couldn't find any information related to your query in this meeting's transcript.'',
      emit (IndexQuery mid k) (emit (EmbedRequest q) w))"
  using assms by (simp add: search_embedded Let_def)

lemma search_generates:
  assumes "embed env (length (events w)) q = Embedding qe" and "qe \<noteq> []"
    and "collection_query env (collection w) qe k mid = Inr es" and "es \<noteq> []"
  shows "search env mid q k w =
     ((case read_reply (loads env) (answer_llm env (join [CHR 0x0A, CHR 0x0A] (map entry_document es)) q) of
         Inl e \<Rightarrow> if caught e then Inr ''There was an error generating an answer.'' else Inl e
       | Inr full_text \<Rightarrow> Inr full_text),
      emit (AnswerRequest (join [CHR 0x0A, CHR 0x0A] (map entry_document es)) q)
        (emit (IndexQuery mid k) (emit (EmbedRequest q) w)))"
  using assms by (simp add: search_embedded Let_def)

text \<open>
  X4. What \<open>search\<close> returns, case by case. When the request for the embedding of the
  query fails in transport or with \<open>KeyError\<close>, or gives an empty embedding, it returns
  ``Could not process your query.'' after that one request: the vector store and the
  language model are not called. When the vector store answers the scoped query with no
  chunk, it returns the ``couldn't find any information'' sentence after the embedding
  request and the query: the language model is not called. When the vector store answers
  with chunks and the generation raises an exception that \<open>search\<close> catches (a transport
  failure, a line that is not JSON, \<open>KeyError\<close>), it returns ``There was an error
  generating an answer.''; when the generation succeeds it returns the text the model
  streamed. Every other exception goes up to the caller: one of the embedding request
  that is neither a transport failure nor \<open>KeyError\<close>, one of the query of the vector
  store, one of the generation that \<open>search\<close> does not catch.
\<close>

theorem search_fixed_answers:
  "(embed env (length (events w)) q = EmbedRaises RequestError
      \<or> embed env (length (events w)) q = EmbedRaises KeyError
      \<or> embed env (length (events w)) q = Embedding []
    \<longrightarrow> search env mid q k w = (Inr ''Could not process your query.'', emit (EmbedRequest q) w))
   \<and> (\<forall>qe. embed env (length (events w)) q = Embedding qe \<and> qe \<noteq> []
          \<and> collection_query env (collection w) qe k mid = Inr []
        \<longrightarrow> search env mid q k w =
             (Inr ''I couldn't find any information related to your query in this meeting's transcript.'',
              emit (IndexQuery mid k) (emit (EmbedRequest q) w)))
   \<and> (\<forall>qe es e. embed env (length (events w)) q = Embedding qe \<and> qe \<noteq> []
          \<and> collection_query env (collection w) qe k mid = Inr es \<and> es \<noteq> []
          \<and> read_reply (loads env)
                (answer_llm env (join [CHR 0x0A, CHR 0x0A] (map entry_document es)) q) = Inl e
        \<longrightarrow> fst (search env mid q k w)
              = (if caught e then Inr ''There was an error generating an answer.'' else Inl e))
   \<and> (\<forall>qe es answer. embed env (length (events w)) q = Embedding qe \<and> qe \<noteq> []
          \<and> collection_query env (collection w) qe k mid = Inr es \<and> es \<noteq> []
          \<and> read_reply (loads env)
                (answer_llm env (join [CHR 0x0A, CHR 0x0A] (map entry_document es)) q) = Inr answer
        \<longrightarrow> fst (search env mid q k w) = Inr answer)
   \<and> (\<forall>e. embed env (length (events w)) q = EmbedRaises e \<and> e \<noteq> RequestError \<and> e \<noteq> KeyError
        \<longrightarrow> search env mid q k w = (Inl e, emit (EmbedRequest q) w))
   \<and> (\<forall>qe e. embed env (length (events w)) q = Embedding qe \<and> qe \<noteq> []
          \<and> collection_query env (collection w) qe k mid = Inl e
        \<longrightarrow> search env mid q k w = (Inl e, emit (IndexQuery mid k) (emit (EmbedRequest q) w)))"
proof (intro conjI allI impI)
  assume "embed env (length (events w)) q = EmbedRaises RequestError
      \<or> embed env (length (events w)) q = EmbedRaises KeyError
      \<or> embed env (length (events w)) q = Embedding []"
  then show "search env mid q k w = (Inr ''Could not process your query.'', emit (EmbedRequest q) w)"
    by (rule search_no_embedding)
next
  fix qe assume "embed env (length (events w)) q = Embedding qe \<and> qe \<noteq> []
          \<and> collection_query env (collection w) qe k mid = Inr []"
  then show "search env mid q k w =
             (Inr ''I couldn't find any information related to your query in this meeting's transcript.'',
              emit (IndexQuery mid k) (emit (EmbedRequest q) w))"
    by (simp add: search_nothing_found)
next
  fix qe es e assume a: "embed env (length (events w)) q = Embedding qe \<and> qe \<noteq> []
          \<and> collection_query env (collection w) qe k mid = Inr es \<and> es \<noteq> []
          \<and> read_reply (loads env)
                (answer_llm env (join [CHR 0x0A, CHR 0x0A] (map entry_document es)) q) = Inl e"
  then have "embed env (length (events w)) q = Embedding qe" "qe \<noteq> []"
    "collection_query env (collection w) qe k mid = Inr es" "es \<noteq> []" by simp_all
  from search_generates [OF this] a
  show "fst (search env mid q k w)
      = (if caught e then Inr ''There was an error generating an answer.'' else Inl e)"
    by simp
next
  fix qe es answer assume a: "embed env (length (events w)) q = Embedding qe \<and> qe \<noteq> []
          \<and> collection_query env (collection w) qe k mid = Inr es \<and> es \<noteq> []
          \<and> read_reply (loads env)
                (answer_llm env (join [CHR 0x0A, CHR 0x0A] (map entry_document es)) q) = Inr answer"
  then have "embed env (length (events w)) q = Embedding qe" "qe \<noteq> []"
    "collection_query env (collection w) qe k mid = Inr es" "es \<noteq> []" by simp_all
  from search_generates [OF this] a
  show "fst (search env mid q k w) = Inr answer" by simp
next
  fix e assume "embed env (length (events w)) q = EmbedRaises e \<and> e \<noteq> RequestError \<and> e \<noteq> KeyError"
  then show "search env mid q k w = (Inl e, emit (EmbedRequest q) w)"
    by (simp add: search_embed_raises)
next
  fix qe e assume "embed env (length (events w)) q = Embedding qe \<and> qe \<noteq> []
          \<and> collection_query env (collection w) qe k mid = Inl e"
  then show "search env mid q k w = (Inl e, emit (IndexQuery mid k) (emit (EmbedRequest q) w))"
    by (simp add: search_query_raises)
qed

lemma set_collection_query:
  "collection_query env coll qe k mid = Inr es \<Longrightarrow> x \<in> set es
     \<Longrightarrow> x \<in> set coll \<and> entry_meeting_id x = mid"
  by (auto simp: collection_query_def split: if_splits dest!: in_set_takeD)

lemma collection_add_tags:
  assumes "collection_add embeddings documents metadatas ids coll = Inr coll'"
    and "x \<in> set coll'"
  shows "x \<in> set coll \<or> entry_meeting_id x \<in> set metadatas"
proof -
  from assms(1) obtain vs where c: "coll' = coll @
            filter (\<lambda>x. \<not> List.member (map entry_id coll) (entry_id x))
              (map (\<lambda>(i, v, d, m).
                      \<lparr>entry_id = i, entry_embedding = v, entry_document = d, entry_meeting_id = m\<rparr>)
                 (zip ids (zip vs (zip documents metadatas))))"
    by (auto simp: collection_add_def split: option.splits if_splits)
  show ?thesis
  proof (cases "x \<in> set coll")
    case True
    then show ?thesis by simp
  next
    case False
    with assms(2) c obtain i v d m where
      "(i, v, d, m) \<in> set (zip ids (zip vs (zip documents metadatas)))"
      and x: "x = \<lparr>entry_id = i, entry_embedding = v, entry_document = d, entry_meeting_id = m\<rparr>"
      by auto
    then have "m \<in> set metadatas" by (auto dest!: set_zip_rightD)
    with x show ?thesis by simp
  qed
qed

lemma add_transcript_tags:
  assumes "x \<in> set (collection (snd (add_transcript env A T w)))"
  shows "x \<in> set (collection w) \<or> entry_meeting_id x = A"
proof (cases "chunk_text T 300 50 = []")
  case True
  with assms show ?thesis by (simp add: add_transcript_def)
next
  case False
  obtain r1 w1 where e: "embed_all env (chunk_text T 300 50) w = (r1, w1)" by fastforce
  from embed_all_frame [OF e] have c1: "collection w1 = collection w" by simp
  show ?thesis
  proof (cases r1)
    case (Inl err)
    with assms False e c1 show ?thesis by (simp add: add_transcript_def)
  next
    case (Inr embeddings)
    show ?thesis
    proof (cases "embeddings = []")
      case True
      with assms False e c1 Inr show ?thesis by (simp add: add_transcript_def)
    next
      case ne: False
      show ?thesis
      proof (cases "valid_chunks_from 0 (chunk_text T 300 50) embeddings")
        case (Inl err)
        with assms False e c1 Inr ne show ?thesis by (simp add: add_transcript_def)
      next
        case v: (Inr valid_chunks)
        let ?ids = "map (doc_id A) [0..<length valid_chunks]"
        let ?meta = "map (\<lambda>c. A) valid_chunks"
        show ?thesis
        proof (cases "collection_add embeddings valid_chunks ?meta ?ids (collection w1)")
          case (Inl err)
          with assms False e c1 Inr ne v show ?thesis by (simp add: add_transcript_def Let_def)
        next
          case a: (Inr coll')
          have "collection (snd (add_transcript env A T w)) = coll'"
            using False e Inr ne v a by (simp add: add_transcript_def Let_def)
          with assms have "x \<in> set coll'" by simp
          from collection_add_tags [OF a this] c1 show ?thesis by auto
        qed
      qed
    qed
  qed
qed

lemma search_trace:
  "\<exists>xs. events (snd (search env A q k w)) = events w @ xs
      \<and> (\<forall>m n. IndexQuery m n \<in> set xs \<longrightarrow> m = A)
      \<and> (\<forall>ctx q'. AnswerRequest ctx q' \<in> set xs \<longrightarrow>
            (\<exists>es. ctx = join [CHR 0x0A, CHR 0x0A] (map entry_document es)
               \<and> (\<forall>x\<in>set es. x \<in> set (collection w) \<and> entry_meeting_id x = A)))"
proof (cases "embed env (length (events w)) q")
  case (EmbedRaises e)
  then have "events (snd (search env A q k w)) = events w @ [EmbedRequest q]"
    by (simp add: search_def get_embedding_def)
  then show ?thesis by simp
next
  case (Embedding qe)
  show ?thesis
  proof (cases "qe = []")
    case True
    with Embedding have "events (snd (search env A q k w)) = events w @ [EmbedRequest q]"
      by (simp add: search_def get_embedding_def)
    then show ?thesis by simp
  next
    case False
    show ?thesis
    proof (cases "collection_query env (collection w) qe k A")
      case (Inl e)
      from search_query_raises [OF Embedding False Inl]
      have "events (snd (search env A q k w)) = events w @ [EmbedRequest q, IndexQuery A k]"
        by simp
      then show ?thesis by simp
    next
      case (Inr es)
      let ?ctx = "join [CHR 0x0A, CHR 0x0A] (map entry_document es)"
      have "events (snd (search env A q k w)) = events w @ [EmbedRequest q, IndexQuery A k]
          \<or> events (snd (search env A q k w))
               = events w @ [EmbedRequest q, IndexQuery A k, AnswerRequest ?ctx q]"
        using Embedding False Inr by (simp add: search_embedded Let_def)
      moreover have "\<forall>x\<in>set es. x \<in> set (collection w) \<and> entry_meeting_id x = A"
        using set_collection_query [OF Inr] by blast
      ultimately show ?thesis by auto
    qed
  qed
qed

text \<open>
  C9. Whatever the vector collection holds, \<open>search\<close> for meeting \<open>A\<close> queries the vector
  store only with the filter \<open>meeting_id = A\<close>, and the context it hands to the language
  model is made of documents of stored chunks that are tagged \<open>A\<close>; every chunk a scoped
  query returns is a stored chunk tagged \<open>A\<close>, so none tagged with another meeting appears;
  and indexing a transcript for \<open>A\<close> adds only chunks tagged \<open>A\<close>.
\<close>

theorem retrieval_scoped:
  "(\<exists>xs. events (snd (search env A q k w)) = events w @ xs
      \<and> (\<forall>m n. IndexQuery m n \<in> set xs \<longrightarrow> m = A)
      \<and> (\<forall>ctx q'. AnswerRequest ctx q' \<in> set xs \<longrightarrow>
            (\<exists>es. ctx = join [CHR 0x0A, CHR 0x0A] (map entry_document es)
               \<and> (\<forall>x\<in>set es. x \<in> set (collection w) \<and> entry_meeting_id x = A))))
   \<and> (\<forall>es. collection_query env coll qe k A = Inr es
         \<longrightarrow> (\<forall>x\<in>set es. x \<in> set coll \<and> entry_meeting_id x = A))
   \<and> (\<forall>x\<in>set (collection (snd (add_transcript env A T w))).
         x \<in> set (collection w) \<or> entry_meeting_id x = A)"
proof (intro conjI ballI allI impI)
  show "\<exists>xs. events (snd (search env A q k w)) = events w @ xs
      \<and> (\<forall>m n. IndexQuery m n \<in> set xs \<longrightarrow> m = A)
      \<and> (\<forall>ctx q'. AnswerRequest ctx q' \<in> set xs \<longrightarrow>
            (\<exists>es. ctx = join [CHR 0x0A, CHR 0x0A] (map entry_document es)
               \<and> (\<forall>x\<in>set es. x \<in> set (collection w) \<and> entry_meeting_id x = A)))"
    by (rule search_trace)
next
  fix es x assume "collection_query env coll qe k A = Inr es" "x \<in> set es"
  then show "x \<in> set coll" "entry_meeting_id x = A"
    using set_collection_query by blast+
next
  fix x assume "x \<in> set (collection (snd (add_transcript env A T w)))"
  then show "x \<in> set (collection w) \<or> entry_meeting_id x = A"
    by (rule add_transcript_tags)
qed

lemma zoo_chunks:
  "chunk_text ''budget review for the zoo project'' 300 50 = [''budget review for the zoo project'']"
  by (simp add: chunk_text_def split_def is_space_def range_step.simps)

lemma art_chunks:
  "chunk_text ''budget review for the art project'' 300 50 = [''budget review for the art project'']"
  by (simp add: chunk_text_def split_def is_space_def range_step.simps)

lemma doc_ids: "doc_id 8 0 = ''8_0''" "doc_id 7 0 = ''7_0''"
  by code_simp+

lemma indexed_twice:
  "snd (add_transcript answering 7 ''budget review for the art project''
         (snd (add_transcript answering 8 ''budget review for the zoo project'' upload_world)))
   = indexed_world\<lparr>events :=
       [EmbedRequest ''budget review for the zoo project'',
        EmbedRequest ''budget review for the zoo project'', IndexAdd [''8_0''],
        EmbedRequest ''budget review for the art project'',
        EmbedRequest ''budget review for the art project'', IndexAdd [''7_0'']]\<rparr>"
  by (simp add: add_transcript_def zoo_chunks art_chunks get_embedding_def answering_fields
        collection_add_def dimension_def doc_ids emit_def upload_world_def indexed_world_def)

lemma indexed_query:
  "collection_query env (collection indexed_world) [a, b] 3 7 =
     Inr [\<lparr>entry_id = ''7_0'', entry_embedding = [1, 2],
           entry_document = ''budget review for the art project'', entry_meeting_id = 7\<rparr>]"
  by (simp add: collection_query_def dimension_def indexed_world_def)

lemma indexed_events: "events indexed_world = []" "events upload_world = []"
  "collection upload_world = []"
  by (simp_all add: indexed_world_def upload_world_def)

lemma fine_reply:
  \<open>read_reply loads_sample (Stream [''{"response": "fine"}''] None) = Inr ''fine''\<close>
  by (simp add: read_reply_def loads_sample_def sample_line_def sample_text_def escape_quotes_def
        is_space_def dict_get_def)

lemma indexed_search:
  "search answering 7 ''budget'' 3 indexed_world =
     (Inr ''fine'',
      indexed_world\<lparr>events :=
        [EmbedRequest ''budget'', IndexQuery 7 3,
         AnswerRequest ''budget review for the art project'' ''budget'']\<rparr>)"
  by (simp add: search_embedded [where qe = "[1, 2]"] answering_fields answering_answer
        indexed_query indexed_events fine_reply emit_def Let_def)

theorem retrieval_scoped_witness:
  "(\<exists>xs. events (snd (search answering 7 ''budget'' 3 indexed_world)) = events indexed_world @ xs
      \<and> (\<forall>m n. IndexQuery m n \<in> set xs \<longrightarrow> m = 7)
      \<and> (\<forall>ctx q'. AnswerRequest ctx q' \<in> set xs \<longrightarrow>
            (\<exists>es. ctx = join [CHR 0x0A, CHR 0x0A] (map entry_document es)
               \<and> (\<forall>x\<in>set es. x \<in> set (collection indexed_world) \<and> entry_meeting_id x = 7))))
   \<and> events (snd (search answering 7 ''budget'' 3 indexed_world)) =
        [EmbedRequest ''budget'', IndexQuery 7 3,
         AnswerRequest ''budget review for the art project'' ''budget'']
   \<and> map entry_meeting_id (collection indexed_world) = [8, 7]
   \<and> collection_query answering (collection indexed_world) [1, 2] 3 7
        = Inr [\<lparr>entry_id = ''7_0'', entry_embedding = [1, 2],
                entry_document = ''budget review for the art project'', entry_meeting_id = 7\<rparr>]
   \<and> collection (snd (add_transcript answering 7 ''budget review for the art project''
         (snd (add_transcript answering 8 ''budget review for the zoo project'' upload_world))))
        = collection indexed_world"
proof -
  note t = retrieval_scoped [of answering 7 "''budget''" 3 indexed_world "collection indexed_world"
      "[1, 2]" "''budget review for the art project''"]
  have 1: "events (snd (search answering 7 ''budget'' 3 indexed_world)) =
        [EmbedRequest ''budget'', IndexQuery 7 3,
         AnswerRequest ''budget review for the art project'' ''budget'']"
    by (simp add: indexed_search)
  have 2: "map entry_meeting_id (collection indexed_world) = [8, 7]"
    by (simp add: indexed_world_def)
  have 3: "collection (snd (add_transcript answering 7 ''budget review for the art project''
         (snd (add_transcript answering 8 ''budget review for the zoo project'' upload_world))))
        = collection indexed_world"
    by (simp add: indexed_twice)
  show ?thesis
    by (intro conjI t [THEN conjunct1] 1 2 3 indexed_query)
qed

lemma garbage_reply: "read_reply loads_sample (Stream [''<html>Bad Gateway</html>''] None) = Inl JSONDecodeError"
  by (simp add: read_reply_def loads_sample_def sample_line_def sample_text_def escape_quotes_def
        is_space_def)

theorem search_fixed_answers_witness:
  "embed offline (length (events upload_world)) ''budget'' = EmbedRaises RequestError
   \<and> search offline 7 ''budget'' 3 upload_world
        = (Inr ''Could not process your query.'', emit (EmbedRequest ''budget'') upload_world)
   \<and> embed answering (length (events upload_world)) ''budget'' = Embedding [1, 2]
   \<and> collection_query answering (collection upload_world) [1, 2] 3 7 = Inr []
   \<and> search answering 7 ''budget'' 3 upload_world
        = (Inr ''I couldn't find any information related to your query in this meeting's transcript.'',
           emit (IndexQuery 7 3) (emit (EmbedRequest ''budget'') upload_world))
   \<and> read_reply (loads (answering\<lparr>answer_llm := \<lambda>c q. Stream [''<html>Bad Gateway</html>''] None\<rparr>))
        (answer_llm (answering\<lparr>answer_llm := \<lambda>c q. Stream [''<html>Bad Gateway</html>''] None\<rparr>)
           ''budget review for the art project'' ''budget'') = Inl JSONDecodeError
   \<and> caught JSONDecodeError
   \<and> fst (search (answering\<lparr>answer_llm := \<lambda>c q. Stream [''<html>Bad Gateway</html>''] None\<rparr>) 7
        ''budget'' 3 indexed_world) = Inr ''There was an error generating an answer.''
   \<and> fst (search answering 7 ''budget'' 3 indexed_world) = Inr ''fine''
   \<and> embed (answering\<lparr>embed := \<lambda>n t. Embedding [1, 2, 3]\<rparr>) (length (events indexed_world)) ''budget''
        = Embedding [1, 2, 3]
   \<and> collection_query (answering\<lparr>embed := \<lambda>n t. Embedding [1, 2, 3]\<rparr>) (collection indexed_world)
        [1, 2, 3] 3 7 = Inl InvalidDimension
   \<and> search (answering\<lparr>embed := \<lambda>n t. Embedding [1, 2, 3]\<rparr>) 7 ''budget'' 3 indexed_world
        = (Inl InvalidDimension, emit (IndexQuery 7 3) (emit (EmbedRequest ''budget'') indexed_world))"
proof -
  let ?g = "answering\<lparr>answer_llm := \<lambda>c q. Stream [''<html>Bad Gateway</html>''] None\<rparr>"
  let ?d = "answering\<lparr>embed := \<lambda>n t. Embedding [1, 2, 3]\<rparr>"
  let ?es = "[\<lparr>entry_id = ''7_0'', entry_embedding = [1, 2],
           entry_document = ''budget review for the art project'', entry_meeting_id = 7\<rparr>]"
  have 1: "embed offline (length (events upload_world)) ''budget'' = EmbedRaises RequestError"
    by (simp add: offline_fields)
  have 2: "embed answering (length (events upload_world)) ''budget'' = Embedding [1, 2]"
    "embed answering (length (events indexed_world)) ''budget'' = Embedding [1, 2]"
    "embed ?g (length (events indexed_world)) ''budget'' = Embedding [1, 2]"
    by (simp_all add: answering_fields)
  have 3: "collection_query answering (collection upload_world) [1, 2] 3 7 = Inr []"
    by (simp add: collection_query_def dimension_def indexed_events)
  have 4: "read_reply (loads ?g) (answer_llm ?g ''budget review for the art project'' ''budget'')
      = Inl JSONDecodeError"
    by (simp add: answering_fields garbage_reply)
  have 5: "caught JSONDecodeError" by (simp add: caught_def)
  have 6: "read_reply (loads answering)
        (answer_llm answering ''budget review for the art project'' ''budget'') = Inr ''fine''"
    by (simp add: answering_fields answering_answer fine_reply)
  have 7: "embed ?d (length (events indexed_world)) ''budget'' = Embedding [1, 2, 3]" by simp
  have 8: "collection_query ?d (collection indexed_world) [1, 2, 3] 3 7 = Inl InvalidDimension"
    by (simp add: collection_query_def dimension_def indexed_world_def)
  note a = search_fixed_answers [of offline upload_world "''budget''" 7 3]
  note b = search_fixed_answers [of answering upload_world "''budget''" 7 3]
  note c = search_fixed_answers [of ?g indexed_world "''budget''" 7 3]
  note d = search_fixed_answers [of answering indexed_world "''budget''" 7 3]
  note e = search_fixed_answers [of ?d indexed_world "''budget''" 7 3]
  have A: "search offline 7 ''budget'' 3 upload_world
        = (Inr ''Could not process your query.'', emit (EmbedRequest ''budget'') upload_world)"
    using a [THEN conjunct1] 1 by simp
  have B: "search answering 7 ''budget'' 3 upload_world
        = (Inr ''I couldn't find any information related to your query in this meeting's transcript.'',
           emit (IndexQuery 7 3) (emit (EmbedRequest ''budget'') upload_world))"
    using b [THEN conjunct2, THEN conjunct1, rule_format, of "[1, 2]"] 2(1) 3 by simp
  have C: "fst (search ?g 7 ''budget'' 3 indexed_world) = Inr ''There was an error generating an answer.''"
    using c [THEN conjunct2, THEN conjunct2, THEN conjunct1, rule_format, of "[1, 2]" ?es JSONDecodeError]
      2(3) 4 5 by (simp add: indexed_query)
  have D: "fst (search answering 7 ''budget'' 3 indexed_world) = Inr ''fine''"
    using d [THEN conjunct2, THEN conjunct2, THEN conjunct2, THEN conjunct1, rule_format,
        of "[1, 2]" ?es "''fine''"]
      2(2) 6 by (simp add: indexed_query)
  have E: "search ?d 7 ''budget'' 3 indexed_world
        = (Inl InvalidDimension, emit (IndexQuery 7 3) (emit (EmbedRequest ''budget'') indexed_world))"
    using e [THEN conjunct2, THEN conjunct2, THEN conjunct2, THEN conjunct2, THEN conjunct2,
        rule_format, of "[1, 2, 3]" InvalidDimension] 7 8 by simp
  show ?thesis
    by (intro conjI 1 2(1) 3 4 5 7 8 A B C D E)
qed

text \<open>
  C6, at a failing input. The embedding service, or the language model, answers the
  request of \<open>search\<close> with an HTTP error status, so \<open>raise_for_status\<close> raises
  \<open>HTTPStatusError\<close>. Neither \<open>except (httpx.RequestError, KeyError)\<close> of
  \<open>_get_embedding\<close> nor \<open>except (httpx.RequestError, json.JSONDecodeError, KeyError)\<close> of
  \<open>search\<close> catches it: \<open>search\<close> raises it, where the specification has a fixed string
  returned and no exception.
\<close>

theorem search_raises:
  "fst (search (answering\<lparr>embed := \<lambda>n t. EmbedRaises HTTPStatusError\<rparr>) 7 ''budget'' 3 indexed_world)
     = Inl HTTPStatusError
   \<and> fst (search (answering\<lparr>answer_llm := \<lambda>c q. Stream [] (Some HTTPStatusError)\<rparr>) 7 ''budget'' 3
        indexed_world) = Inl HTTPStatusError"
proof -
  let ?g = "answering\<lparr>answer_llm := \<lambda>c q. Stream [] (Some HTTPStatusError)\<rparr>"
  have 1: "fst (search (answering\<lparr>embed := \<lambda>n t. EmbedRaises HTTPStatusError\<rparr>) 7 ''budget'' 3
        indexed_world) = Inl HTTPStatusError"
    by (simp add: search_def get_embedding_def)
  have "embed ?g (length (events indexed_world)) ''budget'' = Embedding [1, 2]"
    by (simp add: answering_fields)
  then have 2: "fst (search ?g 7 ''budget'' 3 indexed_world) = Inl HTTPStatusError"
    by (simp add: search_embedded [where qe = "[1, 2]"] indexed_query read_reply_def caught_def Let_def)
  from 1 2 show ?thesis by simp
qed

section \<open>TranscriptionService: the order of the transcript\<close>

lemma complete_succeeds:
  assumes "length slots = length vs"
    and "\<forall>j<length vs. slots ! j = None \<or> slots ! j = Some (vs ! j)"
  shows "\<exists>slots'. complete order (map Inr vs) slots = Inr slots'
      \<and> length slots' = length vs
      \<and> (\<forall>j<length vs. slots' ! j = None \<or> slots' ! j = Some (vs ! j))
      \<and> (\<forall>j<length vs. slots ! j \<noteq> None \<or> j \<in> set order \<longrightarrow> slots' ! j = Some (vs ! j))"
  using assms
proof (induction order arbitrary: slots)
  case Nil
  then show ?case by auto
next
  case (Cons i order)
  show ?case
  proof (cases "i < length vs")
    case False
    with Cons.IH [OF Cons.prems] show ?thesis by auto
  next
    case True
    let ?s = "slots[i := Some (vs ! i)]"
    have l: "length ?s = length vs" using Cons.prems by simp
    have g: "\<forall>j<length vs. ?s ! j = None \<or> ?s ! j = Some (vs ! j)"
    proof (intro allI impI)
      fix j assume j: "j < length vs"
      show "?s ! j = None \<or> ?s ! j = Some (vs ! j)"
        by (cases "j = i") (use Cons.prems j in auto)
    qed
    from Cons.IH [OF l g] obtain slots' where
      c: "complete order (map Inr vs) ?s = Inr slots'" and l': "length slots' = length vs"
      and g': "\<forall>j<length vs. slots' ! j = None \<or> slots' ! j = Some (vs ! j)"
      and d: "\<forall>j<length vs. ?s ! j \<noteq> None \<or> j \<in> set order \<longrightarrow> slots' ! j = Some (vs ! j)"
      by blast
    have "complete (i # order) (map Inr vs) slots = Inr slots'" using True c by simp
    moreover have "\<forall>j<length vs. slots ! j \<noteq> None \<or> j \<in> set (i # order)
        \<longrightarrow> slots' ! j = Some (vs ! j)"
      using d Cons.prems True by (auto simp: nth_list_update split: if_splits)
    ultimately show ?thesis using l' g' by blast
  qed
qed

lemma gather_in_order: "gather order (map Inr vs) = Inr (vs :: 'a list)"
proof -
  let ?n = "length vs"
  have p1: "length (replicate ?n (None :: 'a option)) = length vs" by simp
  have p2: "\<forall>j<length vs. replicate ?n (None :: 'a option) ! j = None
      \<or> replicate ?n (None :: 'a option) ! j = Some (vs ! j)" by simp
  from complete_succeeds [OF p1 p2, of "order @ [0..<?n]"]
  obtain slots' where c: "complete (order @ [0..<?n]) (map Inr vs) (replicate ?n None) = Inr slots'"
    and l: "length slots' = ?n"
    and d: "\<forall>j<?n. replicate ?n (None :: 'a option) ! j \<noteq> None \<or> j \<in> set (order @ [0..<?n])
            \<longrightarrow> slots' ! j = Some (vs ! j)"
    by blast
  have a: "\<forall>j<?n. slots' ! j = Some (vs ! j)" using d by simp
  have "map the slots' = vs" using l a by (simp add: list_eq_iff_nth_eq)
  then show ?thesis using c by (simp add: gather_def)
qed

text \<open>
  C5. When the file decodes and the recogniser succeeds on every audio segment, the
  transcript is the texts of the segments in the order of the segments, each joined to
  the one before by a single space, whatever the order \<open>order\<close> in which the transcription
  tasks finish.
\<close>

theorem transcript_in_segment_order:
  assumes "decode env filepath = Inr wav"
    and "map (whisper env) (split_audio wav 120000) = map Inr texts"
  shows "transcribe (env\<lparr>completion := order\<rparr>) filepath
           = Inr (join '' '' (map (join '' '') texts))"
proof -
  have "map (transcribe_chunk (env\<lparr>completion := order\<rparr>)) (split_audio wav 120000)
          = map (\<lambda>r. case r of Inl e \<Rightarrow> Inl e | Inr segments \<Rightarrow> Inr (join '' '' segments))
              (map (whisper env) (split_audio wav 120000))"
    by (simp add: transcribe_chunk_def)
  also have "\<dots> = map Inr (map (join '' '') texts)" unfolding assms(2) by simp
  finally have t: "map (transcribe_chunk (env\<lparr>completion := order\<rparr>)) (split_audio wav 120000)
      = map Inr (map (join '' '') texts)" .
  show ?thesis
    using assms(1) by (simp add: transcribe_def Let_def t gather_in_order del: map_map)
qed

lemma split_three: "split_audio [0, 0, 0] 2 = [[0, 0], [0]]"
  by (simp add: split_audio_def range_step.simps)

lemma split_long:
  "split_audio (replicate 120000 0 @ replicate 120000 5 @ [9]) 120000
     = [replicate 120000 0, replicate 120000 5, [9]]"
proof -
  have r: "range_step 0 240001 120000 = [0, 120000, 240000]"
    by (simp add: range_step.simps)
  show ?thesis by (simp add: split_audio_def r)
qed

theorem transcript_in_segment_order_witness:
  "decode (offline\<lparr>decode := \<lambda>p. Inr (replicate 120000 0 @ replicate 120000 5 @ [9]),
                    whisper := \<lambda>a. Inr [if hd a = 0 then ''good'' else if hd a = 5 then ''morning''
                                          else ''everyone'']\<rparr>) ''uploads/a.wav''
     = Inr (replicate 120000 0 @ replicate 120000 5 @ [9])
   \<and> map (whisper (offline\<lparr>decode := \<lambda>p. Inr (replicate 120000 0 @ replicate 120000 5 @ [9]),
                    whisper := \<lambda>a. Inr [if hd a = 0 then ''good'' else if hd a = 5 then ''morning''
                                          else ''everyone'']\<rparr>))
        (split_audio (replicate 120000 0 @ replicate 120000 5 @ [9]) 120000)
     = map Inr [[''good''], [''morning''], [''everyone'']]
   \<and> transcribe (offline\<lparr>decode := \<lambda>p. Inr (replicate 120000 0 @ replicate 120000 5 @ [9]),
                    whisper := \<lambda>a. Inr [if hd a = 0 then ''good'' else if hd a = 5 then ''morning''
                                          else ''everyone''],
                    completion := \<lambda>p. [2, 0]\<rparr>) ''uploads/a.wav''
     = Inr ''good morning everyone''
   \<and> gather [2, 0] [Inr ''good'', Inr ''morning'', Inr ''everyone'']
     = (Inr [''good'', ''morning'', ''everyone''] :: error + string list)"
proof -
  let ?e = "offline\<lparr>decode := \<lambda>p. Inr (replicate 120000 0 @ replicate 120000 5 @ [9]),
                    whisper := \<lambda>a. Inr [if hd a = 0 then ''good'' else if hd a = 5 then ''morning''
                                          else ''everyone'']\<rparr>"
  have a: "decode ?e ''uploads/a.wav'' = Inr (replicate 120000 0 @ replicate 120000 5 @ [9])"
    by simp
  have b: "map (whisper ?e) (split_audio (replicate 120000 0 @ replicate 120000 5 @ [9]) 120000)
     = map Inr [[''good''], [''morning''], [''everyone'']]"
    unfolding split_long by simp
  have g: "gather [2, 0] [Inr ''good'', Inr ''morning'', Inr ''everyone'']
     = (Inr [''good'', ''morning'', ''everyone''] :: error + string list)"
    by (simp add: gather_def upt_rec)
  show ?thesis
    using a b g transcript_in_segment_order [OF a b, of "\<lambda>p. [2, 0]"]
    by simp
qed

section \<open>VectorStoreService: chunks and indexing\<close>

lemma range_step_closed:
  "0 < k \<Longrightarrow> range_step s n k = map (\<lambda>j. s + j * k) [0..<(n - s + k - 1) div k]"
proof (induction s n k rule: range_step.induct)
  case (1 s n k)
  show ?case
  proof (cases "n \<le> s")
    case True
    then have "(n - s + k - 1) div k = 0" using "1.prems" by simp
    with True show ?thesis by (simp add: range_step.simps)
  next
    case False
    have m: "(n - s + k - 1) div k = Suc ((n - (s + k) + k - 1) div k)"
    proof (cases "s + k \<le> n")
      case True
      then have "n - s + k - 1 = (n - (s + k) + k - 1) + k" using "1.prems" by simp
      then have "(n - s + k - 1) div k = ((n - (s + k) + k - 1) + k) div k" by (rule arg_cong)
      also have "\<dots> = Suc ((n - (s + k) + k - 1) div k)" using "1.prems" by (simp only: div_add_self2)
      finally show ?thesis .
    next
      case f: False
      then have "n - (s + k) = 0" by simp
      moreover have "k \<le> n - s + k - 1" "n - s + k - 1 < 2 * k" using False f by auto
      then have "(n - s + k - 1) div k = 1"
        by (metis One_nat_def "1.prems"(1) div_nat_eqI mult.commute mult_2_right nat_mult_1_right plus_1_eq_Suc)
      ultimately show ?thesis using "1.prems" by simp
    qed
    have "range_step s n k = s # range_step (s + k) n k"
      using False "1.prems" by (subst range_step.simps) simp
    also have "range_step (s + k) n k = map (\<lambda>j. s + k + j * k) [0..<(n - (s + k) + k - 1) div k]"
      using "1.IH" False "1.prems" by simp
    finally have r: "range_step s n k
        = s # map (\<lambda>j. s + k + j * k) [0..<(n - (s + k) + k - 1) div k]" .
    have "map (\<lambda>j. s + j * k) [0..<Suc ((n - (s + k) + k - 1) div k)]
        = (s + 0 * k) # map (\<lambda>j. s + Suc j * k) [0..<(n - (s + k) + k - 1) div k]"
      by (rule map_upt_Suc)
    also have "\<dots> = s # map (\<lambda>j. s + k + j * k) [0..<(n - (s + k) + k - 1) div k]"
      by (simp add: add.assoc)
    finally show ?thesis unfolding m r by (rule sym)
  qed
qed

lemma chunk_text_closed:
  assumes "split T \<noteq> []"
  shows "chunk_text T 300 50 =
     map (\<lambda>j. join '' '' (take 300 (drop (j * 250) (split T)))) [0..<(length (split T) + 249) div 250]"
  using assms by (simp add: chunk_text_def Let_def range_step_closed comp_def add.commute)

lemma split_from_nonspace:
  "\<forall>c\<in>set u. \<not> is_space c \<Longrightarrow> split_from w (u @ s) = split_from (w @ u) s"
  by (induction u arbitrary: w) auto

lemma split_from_ok:
  "\<forall>c\<in>set w. \<not> is_space c \<Longrightarrow> u \<in> set (split_from w s) \<Longrightarrow> u \<noteq> [] \<and> (\<forall>c\<in>set u. \<not> is_space c)"
proof (induction s arbitrary: w)
  case Nil
  then show ?case by (auto split: if_splits)
next
  case (Cons c s)
  show ?case
  proof (cases "is_space c")
    case True
    with Cons.prems have "u = w \<and> w \<noteq> [] \<or> u \<in> set (split_from [] s)"
      by (auto split: if_splits)
    then show ?thesis using Cons.prems(1) Cons.IH [of "[]"] by auto
  next
    case False
    with Cons.prems have "u \<in> set (split_from (w @ [c]) s)" by simp
    moreover have "\<forall>x\<in>set (w @ [c]). \<not> is_space x" using False Cons.prems(1) by simp
    ultimately show ?thesis using Cons.IH by blast
  qed
qed

lemma split_ok: "u \<in> set (split T) \<Longrightarrow> u \<noteq> [] \<and> (\<forall>c\<in>set u. \<not> is_space c)"
  unfolding split_def by (rule split_from_ok) simp_all

lemma space_is_space: "is_space CHR '' ''"
  by (simp add: is_space_def)

lemma split_join:
  "\<forall>u\<in>set ws. u \<noteq> [] \<and> (\<forall>c\<in>set u. \<not> is_space c) \<Longrightarrow> split (join '' '' ws) = ws"
proof (induction "'' ''" ws rule: join.induct)
  case 1
  then show ?case by (simp add: split_def)
next
  case (2 x)
  then have "split_from [] (x @ []) = split_from ([] @ x) []"
    by (intro split_from_nonspace) simp
  with 2 show ?case by (simp add: split_def)
next
  case (3 x y ys)
  have x: "\<forall>c\<in>set x. \<not> is_space c" "x \<noteq> []" using 3(2) by auto
  have "split_from [] (x @ '' '' @ join '' '' (y # ys))
          = split_from ([] @ x) ('' '' @ join '' '' (y # ys))"
    using x(1) by (rule split_from_nonspace)
  also have "\<dots> = x # split_from [] (join '' '' (y # ys))"
    using x(2) space_is_space by simp
  also have "split_from [] (join '' '' (y # ys)) = y # ys"
    using 3 by (simp add: split_def)
  finally show ?case by (simp add: split_def)
qed

lemma chunk_words:
  assumes "split T \<noteq> []" and "k < length (chunk_text T 300 50)"
  shows "split (chunk_text T 300 50 ! k) = take 300 (drop (250 * k) (split T))"
proof -
  have k: "k < (length (split T) + 249) div 250"
    using assms by (simp add: chunk_text_closed)
  then have "chunk_text T 300 50 ! k = join '' '' (take 300 (drop (k * 250) (split T)))"
    using assms(1) by (simp add: chunk_text_closed)
  moreover have "\<forall>u\<in>set (take 300 (drop (k * 250) (split T))). u \<noteq> [] \<and> (\<forall>c\<in>set u. \<not> is_space c)"
    using split_ok by (meson in_set_dropD in_set_takeD)
  ultimately show ?thesis by (simp add: split_join mult.commute)
qed

lemma chunk_count:
  "split T \<noteq> [] \<Longrightarrow> length (chunk_text T 300 50) = (length (split T) + 249) div 250"
  by (simp add: chunk_text_closed)

lemma below_count: "k < (n + 249) div 250 \<longleftrightarrow> 250 * k < (n :: nat)"
proof -
  have "k < (n + 249) div 250 \<longleftrightarrow> Suc k \<le> (n + 249) div 250" by (simp add: Suc_le_eq)
  also have "\<dots> \<longleftrightarrow> Suc k * 250 \<le> n + 249" by (simp only: less_eq_div_iff_mult_less_eq)
  also have "\<dots> \<longleftrightarrow> 250 * k < n" by (simp add: Suc_le_eq mult.commute)
  finally show ?thesis .
qed

lemma mod_250: "j - 250 * (j div 250) < (250::nat)"
  by (simp add: minus_mult_div_eq_mod)

text \<open>
  C4, as amended. For a transcript \<open>T\<close> with at least one word, chunk size 300 and overlap
  50: the number of chunks is \<open>\<lceil>words(T) / 250\<rceil>\<close>; chunk \<open>k\<close> holds the words of \<open>T\<close> from
  word \<open>250 k\<close> on, at least one and at most 300 of them, so each chunk starts 250 words
  after the one before; every word of \<open>T\<close> is in a chunk, at its place; the words of a chunk
  after its first 250 are the first words of the next chunk, between 1 and 50 of them, and
  exactly 50 unless the next chunk is the last.
\<close>

theorem chunks_cover_transcript:
  assumes "split T \<noteq> []"
  shows "length (chunk_text T 300 50) = (length (split T) + 249) div 250
     \<and> (\<forall>k<length (chunk_text T 300 50).
           split (chunk_text T 300 50 ! k) = take 300 (drop (250 * k) (split T))
           \<and> 1 \<le> length (split (chunk_text T 300 50 ! k))
           \<and> length (split (chunk_text T 300 50 ! k)) \<le> 300)
     \<and> (\<forall>j<length (split T). \<exists>k<length (chunk_text T 300 50).
           250 * k \<le> j \<and> j - 250 * k < length (split (chunk_text T 300 50 ! k))
           \<and> split (chunk_text T 300 50 ! k) ! (j - 250 * k) = split T ! j)
     \<and> (\<forall>k. Suc k < length (chunk_text T 300 50) \<longrightarrow>
           drop 250 (split (chunk_text T 300 50 ! k)) = take 50 (split (chunk_text T 300 50 ! Suc k))
           \<and> 1 \<le> length (drop 250 (split (chunk_text T 300 50 ! k)))
           \<and> length (drop 250 (split (chunk_text T 300 50 ! k))) \<le> 50)
     \<and> (\<forall>k. Suc (Suc k) < length (chunk_text T 300 50) \<longrightarrow>
           length (drop 250 (split (chunk_text T 300 50 ! k))) = 50)"
proof -
  let ?W = "split T" and ?cs = "chunk_text T 300 50"
  let ?n = "length ?W"
  have c: "length ?cs = (?n + 249) div 250" using assms by (rule chunk_count)
  have w: "split (?cs ! k) = take 300 (drop (250 * k) ?W)" if "k < length ?cs" for k
    using assms that by (rule chunk_words)
  have b: "250 * k < ?n" if "k < length ?cs" for k
    using that unfolding c below_count .
  have 2: "\<forall>k<length ?cs. split (?cs ! k) = take 300 (drop (250 * k) ?W)
           \<and> 1 \<le> length (split (?cs ! k)) \<and> length (split (?cs ! k)) \<le> 300"
  proof (intro allI impI)
    fix k assume k: "k < length ?cs"
    show "split (?cs ! k) = take 300 (drop (250 * k) ?W)
           \<and> 1 \<le> length (split (?cs ! k)) \<and> length (split (?cs ! k)) \<le> 300"
      using w [OF k] b [OF k] by simp
  qed
  have 3: "\<forall>j<?n. \<exists>k<length ?cs. 250 * k \<le> j \<and> j - 250 * k < length (split (?cs ! k))
           \<and> split (?cs ! k) ! (j - 250 * k) = ?W ! j"
  proof (intro allI impI)
    fix j assume j: "j < ?n"
    let ?k = "j div 250"
    have k: "?k < length ?cs" unfolding c below_count using j by simp
    have l: "250 * ?k \<le> j" by simp
    have m: "j - 250 * ?k < 250" by (rule mod_250)
    have "j - 250 * ?k < length (split (?cs ! ?k))"
      using w [OF k] j m l by simp
    moreover have "split (?cs ! ?k) ! (j - 250 * ?k) = ?W ! j"
      using w [OF k] j m l by simp
    ultimately show "\<exists>k<length ?cs. 250 * k \<le> j \<and> j - 250 * k < length (split (?cs ! k))
           \<and> split (?cs ! k) ! (j - 250 * k) = ?W ! j"
      using k l by blast
  qed
  have 4: "\<forall>k. Suc k < length ?cs \<longrightarrow>
           drop 250 (split (?cs ! k)) = take 50 (split (?cs ! Suc k))
           \<and> 1 \<le> length (drop 250 (split (?cs ! k)))
           \<and> length (drop 250 (split (?cs ! k))) \<le> 50"
  proof (intro allI impI)
    fix k assume s: "Suc k < length ?cs"
    then have k: "k < length ?cs" by simp
    have e: "drop 250 (take 300 (drop (250 * k) ?W)) = take 50 (drop (250 * Suc k) ?W)"
      by (simp add: drop_take add.commute)
    have eq: "drop 250 (split (?cs ! k)) = take 50 (split (?cs ! Suc k))"
      unfolding w [OF k] w [OF s] e by simp
    have len: "1 \<le> length (drop 250 (split (?cs ! k)))
           \<and> length (drop 250 (split (?cs ! k))) \<le> 50"
      using b [OF s] unfolding w [OF k] by (auto simp: min_def)
    show "drop 250 (split (?cs ! k)) = take 50 (split (?cs ! Suc k))
           \<and> 1 \<le> length (drop 250 (split (?cs ! k)))
           \<and> length (drop 250 (split (?cs ! k))) \<le> 50"
      by (rule conjI [OF eq len])
  qed
  have 5: "\<forall>k. Suc (Suc k) < length ?cs \<longrightarrow> length (drop 250 (split (?cs ! k))) = 50"
  proof (intro allI impI)
    fix k assume s: "Suc (Suc k) < length ?cs"
    then have k: "k < length ?cs" by simp
    show "length (drop 250 (split (?cs ! k))) = 50"
      using b [OF s] unfolding w [OF k] by (auto simp: min_def)
  qed
  from c 2 3 4 5 show ?thesis by (intro conjI)
qed

lemma split_words: "split_from [] (concat (replicate n ''w '')) = replicate n ''w''"
  by (induction n) (simp_all add: is_space_def)

lemma split_300: "split (concat (replicate 300 ''w '')) = replicate 300 ''w''"
  by (simp add: split_def split_words)

theorem chunk_count_counterexample:
  "length (split (concat (replicate 300 ''w ''))) = 300
   \<and> length (chunk_text (concat (replicate 300 ''w '')) 300 50) = 2
   \<and> (int (length (split (concat (replicate 300 ''w '')))) - 50 + (300 - 50) - 1) div (300 - 50) = 1
   \<and> length (chunk_text ''hello world'' 300 50) = 1
   \<and> (int (length (split ''hello world'')) - 50 + (300 - 50) - 1) div (300 - 50) = 0"
proof -
  have 1: "length (chunk_text (concat (replicate 300 ''w '')) 300 50) = 2"
    by (simp add: chunk_count split_300)
  have 2: "split ''hello world'' = [''hello'', ''world'']"
    by (simp add: split_def is_space_def)
  have 3: "length (chunk_text ''hello world'' 300 50) = 1"
    by (simp add: chunk_count 2)
  show ?thesis by (simp add: 1 2 3 split_300)
qed

lemma split_600: "split (concat (replicate 600 ''w '')) = replicate 600 ''w''"
  by (simp add: split_def split_words)

theorem chunks_cover_transcript_witness:
  "split (concat (replicate 600 ''w '')) \<noteq> []
   \<and> length (chunk_text (concat (replicate 600 ''w '')) 300 50) = 3
   \<and> split (chunk_text (concat (replicate 600 ''w '')) 300 50 ! 0) = replicate 300 ''w''
   \<and> split (chunk_text (concat (replicate 600 ''w '')) 300 50 ! 2) = replicate 100 ''w''
   \<and> drop 250 (split (chunk_text (concat (replicate 600 ''w '')) 300 50 ! 0))
       = take 50 (split (chunk_text (concat (replicate 600 ''w '')) 300 50 ! 1))
   \<and> length (drop 250 (split (chunk_text (concat (replicate 600 ''w '')) 300 50 ! 0))) = 50
   \<and> length (drop 250 (split (chunk_text (concat (replicate 600 ''w '')) 300 50 ! 1))) = 50"
proof -
  let ?T = "concat (replicate 600 ''w '')"
  have h: "split ?T \<noteq> []" by (simp add: split_600)
  note t = chunks_cover_transcript [OF h]
  have n: "length (chunk_text ?T 300 50) = 3"
    using t [THEN conjunct1] by (simp add: split_600)
  have c0: "split (chunk_text ?T 300 50 ! 0) = replicate 300 ''w''"
    using t [THEN conjunct2, THEN conjunct1, rule_format, of 0] n by (simp add: split_600)
  have c2: "split (chunk_text ?T 300 50 ! 2) = replicate 100 ''w''"
    using t [THEN conjunct2, THEN conjunct1, rule_format, of 2] n by (simp add: split_600)
  have o: "drop 250 (split (chunk_text ?T 300 50 ! 0)) = take 50 (split (chunk_text ?T 300 50 ! 1))"
    using t [THEN conjunct2, THEN conjunct2, THEN conjunct2, THEN conjunct1, rule_format, of 0] n
    by simp
  have l0: "length (drop 250 (split (chunk_text ?T 300 50 ! 0))) = 50"
    using t [THEN conjunct2, THEN conjunct2, THEN conjunct2, THEN conjunct2, rule_format, of 0] n
    by simp
  have c1: "split (chunk_text ?T 300 50 ! 1) = replicate 300 ''w''"
    using t [THEN conjunct2, THEN conjunct1, rule_format, of 1] n by (simp add: split_600)
  have l1: "length (drop 250 (split (chunk_text ?T 300 50 ! 1))) = 50"
    unfolding c1 by simp
  from h n c0 c2 o l0 l1 show ?thesis by (intro conjI)
qed

lemma valid_chunks_short:
  "i \<le> length embeddings \<Longrightarrow> length embeddings < i + length chunks
     \<Longrightarrow> valid_chunks_from i chunks embeddings = Inl IndexError"
proof (induction chunks arbitrary: i)
  case Nil
  then show ?case by simp
next
  case (Cons c chunks)
  show ?case
  proof (cases "length embeddings \<le> i")
    case True
    then show ?thesis by simp
  next
    case False
    then have "Suc i \<le> length embeddings" by simp
    moreover have "length embeddings < Suc i + length chunks" using Cons.prems by simp
    ultimately have "valid_chunks_from (Suc i) chunks embeddings = Inl IndexError"
      by (rule Cons.IH)
    with False show ?thesis by simp
  qed
qed

lemma long_words: "split long_transcript = replicate 251 ''w''"
  unfolding long_transcript_def by (rule split_join) (simp add: is_space_def)

lemma long_not_short: "long_transcript \<noteq> ''w''"
proof
  assume "long_transcript = ''w''"
  then have "split long_transcript = split ''w''" by (rule arg_cong)
  moreover have "split ''w'' = [''w'']" by (simp add: split_def is_space_def)
  ultimately have "replicate 251 ''w'' = [''w'']" unfolding long_words by simp
  then have "length (replicate 251 ''w'') = length [''w'']" by (rule arg_cong)
  then show False by simp
qed

lemma long_chunks: "chunk_text long_transcript 300 50 = [long_transcript, ''w'']"
proof -
  have a: "[0..<(251 + 249) div 250] = [0, Suc 0]" by (simp add: upt_rec)
  have b: "take 300 (replicate 251 ''w'') = replicate 251 ''w''" by simp
  have c: "drop 250 (replicate 251 ''w'') = [''w'']" by simp
  have "chunk_text long_transcript 300 50 =
     map (\<lambda>j. join '' '' (take 300 (drop (j * 250) (replicate 251 ''w'')))) [0..<(251 + 249) div 250]"
    using chunk_text_closed [of long_transcript] by (simp add: long_words)
  also have "\<dots> = [join '' '' (replicate 251 ''w''), ''w'']"
    unfolding a by (simp add: b c)
  finally show ?thesis by (simp add: long_transcript_def)
qed

lemma flaky_fields:
  "embed flaky = (\<lambda>n text. if text = ''w'' then EmbedRaises RequestError else Embedding [1, 2])"
  "whisper flaky = (\<lambda>a. Inr (replicate 251 ''w''))"
  "loads flaky = loads_sample" "insights_llm flaky = (\<lambda>t. Stream [sample_line] None)"
  "decode flaky = (\<lambda>p. Inr [0, 0, 0])" "completion flaky = (\<lambda>p. [])"
  by (simp_all add: flaky_def answering_def)

lemma flaky_embed_all:
  "embed_all flaky [long_transcript, ''w''] w =
     (Inr [Some [1, 2]],
      emit (EmbedRequest ''w'') (emit (EmbedRequest long_transcript) (emit (EmbedRequest long_transcript) w)))"
  by (simp add: get_embedding_def flaky_fields long_not_short)

lemma update_insights_bindable:
  "bindable (dict_get items ''summary'' JNull) \<Longrightarrow> bindable (dict_get items ''sentiment'' JNull)
     \<Longrightarrow> \<exists>w'. update_insights m (JDict items) w = (Inr (), Usable, w')"
  by (simp add: update_insights_def split: option.splits)

text \<open>
  C3, at a failing input. \<open>long_transcript\<close> has two chunks; the embedding service answers
  for the first and fails in transport for the second. Indexing then raises
  \<open>IndexError\<close>: the list of embeddings has one element and is read at index 1. Nothing is
  stored, and a run on this transcript returns in status \<open>failed\<close>; the specification
  has the second chunk dropped and the first stored.
\<close>

theorem partial_embedding_failure:
  "chunk_text long_transcript 300 50 = [long_transcript, ''w'']
   \<and> embed flaky 0 long_transcript = Embedding [1, 2]
   \<and> embed flaky 0 ''w'' = EmbedRaises RequestError
   \<and> fst (add_transcript flaky 7 long_transcript upload_world) = Inl IndexError
   \<and> collection (snd (add_transcript flaky 7 long_transcript upload_world)) = []
   \<and> transcribe flaky ''uploads/a.wav'' = Inr long_transcript
   \<and> fst (run flaky 7 ''uploads/a.wav'' upload_world) = Inr ()
   \<and> statuses 7 (events (snd (run flaky 7 ''uploads/a.wav'' upload_world)))
       = [''transcribing'', ''analyzing'', ''failed'']"
proof -
  have 1: "fst (add_transcript flaky 7 long_transcript w) = Inl IndexError
      \<and> collection (snd (add_transcript flaky 7 long_transcript w)) = collection w" for w
    by (simp add: add_transcript_def long_chunks flaky_embed_all del: embed_all.simps)
  have 2: "transcribe flaky ''uploads/a.wav'' = Inr long_transcript"
    by (simp add: transcribe_def flaky_fields split_audio_def range_step.simps gather_def
          transcribe_chunk_def long_transcript_def)
  have r: "read_reply loads_sample (Stream [sample_line] None) = Inr sample_text"
    by (simp add: read_reply_def sample_line_not_blank loads_sample_line dict_get_def)
  have k: "\<exists>fs. calculate_keyword_frequency [JStr ''Art'', JStr ''zebra'', JStr ''start''] T = Inr fs"
    for T
    by (simp add: calculate_keyword_frequency_def Let_def)
  have x: "\<exists>ks. fst (extract_insights flaky long_transcript w)
      = Inr (JDict [(''keywords'', ks), (''sentiment'', JStr ''Neutral'')])" for w
  proof -
    from k obtain fs where
      "calculate_keyword_frequency [JStr ''Art'', JStr ''zebra'', JStr ''start''] long_transcript = Inr fs"
      by blast
    then show ?thesis
      by (simp add: extract_insights_fst flaky_fields r loads_sample_text annotate_dict)
  qed
  let ?w3 = "begin_phase Extraction 7 (update_status 7 ''analyzing''
             (update_transcript 7 long_transcript
                (begin_phase Transcription 7 (update_status 7 ''transcribing'' upload_world))))"
  obtain ks where i: "fst (extract_insights flaky long_transcript ?w3)
      = Inr (JDict [(''keywords'', ks), (''sentiment'', JStr ''Neutral'')])"
    using x by blast
  then have e: "extract_insights flaky long_transcript ?w3
      = (Inr (JDict [(''keywords'', ks), (''sentiment'', JStr ''Neutral'')]),
         emit (ExtractRequest long_transcript) ?w3)"
    using extract_insights_snd [of flaky long_transcript ?w3] by (metis prod.collapse)
  obtain w5 where u: "update_insights 7 (JDict [(''keywords'', ks), (''sentiment'', JStr ''Neutral'')])
      (emit (ExtractRequest long_transcript) ?w3) = (Inr (), Usable, w5)"
    using update_insights_bindable [of "[(''keywords'', ks), (''sentiment'', JStr ''Neutral'')]" 7
        "emit (ExtractRequest long_transcript) ?w3"]
    by (auto simp: dict_get_def)
  note f = update_insights_frame [OF u]
  obtain w6 where a: "add_transcript flaky 7 long_transcript (begin_phase Indexing 7 w5) = (Inl IndexError, w6)"
    using 1 [of "begin_phase Indexing 7 w5"] by (metis prod.collapse)
  from add_transcript_frame [OF a] obtain ys where
    d6: "db w6 = db (begin_phase Indexing 7 w5)"
    and e6: "events w6 = events (begin_phase Indexing 7 w5) @ ys" and ys: "list_all is_request ys"
    by auto
  have d: "db w6 7 \<noteq> None" using d6 f by (simp add: update_status_def update_transcript_def upload_world_def)
  have rn: "run flaky 7 ''uploads/a.wav'' upload_world
      = (Inr (), remove_upload ''uploads/a.wav'' (update_status 7 ''failed'' w6))"
    using 2 e u a by (simp add: run_def run_try_def Let_def)
  have 3: "statuses 7 (events (snd (run flaky 7 ''uploads/a.wav'' upload_world)))
       = [''transcribing'', ''analyzing'', ''failed'']"
  proof -
    have "events (snd (run flaky 7 ''uploads/a.wav'' upload_world))
        = events w6 @ [StatusPersisted 7 ''failed'']
            @ (if ''uploads/a.wav'' \<in> files (update_status 7 ''failed'' w6)
               then [FileRemoved ''uploads/a.wav''] else [])"
      using update_status_known [OF d, of "''failed''"] by (simp add: rn remove_upload_simps)
    moreover have "statuses 7 (events w6) = [''transcribing'', ''analyzing'']"
      using e6 f ys
      by (simp add: statuses_append statuses_requests update_status_def update_transcript_def
            upload_world_def)
    ultimately show ?thesis
      by (simp add: statuses_append)
  qed
  have 4: "fst (run flaky 7 ''uploads/a.wav'' upload_world) = Inr ()" by (simp add: rn)
  from 1 [of upload_world] 2 3 4 show ?thesis
    by (simp add: long_chunks flaky_fields long_not_short upload_world_def)
qed

section \<open>VectorStoreService: indexing, case by case\<close>

lemma embed_all_none:
  assumes "\<forall>n. \<forall>c\<in>set cs. embed env n c = EmbedRaises RequestError \<or> embed env n c = EmbedRaises KeyError"
  shows "fst (embed_all env cs w) = Inr []"
  using assms
proof (induction cs arbitrary: w)
  case Nil
  then show ?case by simp
next
  case (Cons c cs)
  have "embed env (length (events w)) c = EmbedRaises RequestError
      \<or> embed env (length (events w)) c = EmbedRaises KeyError"
    using Cons.prems by simp
  then have "fst (get_embedding env c w) = Inr None"
    by (auto simp: get_embedding_def)
  then have g: "get_embedding env c w = (Inr None, emit (EmbedRequest c) w)"
    by (metis get_embedding_snd prod.collapse)
  have "\<forall>n. \<forall>c\<in>set cs. embed env n c = EmbedRaises RequestError \<or> embed env n c = EmbedRaises KeyError"
    using Cons.prems by simp
  from Cons.IH [OF this] show ?case by (simp add: g)
qed

text \<open>
  X1. When the embedding request fails in transport or with \<open>KeyError\<close> for every chunk, at
  every time, indexing raises nothing and leaves the collection as it was; for a
  transcript without a word it does nothing at all.
\<close>

theorem indexing_noop:
  assumes "\<forall>n. \<forall>c\<in>set (chunk_text T 300 50).
             embed env n c = EmbedRaises RequestError \<or> embed env n c = EmbedRaises KeyError"
  shows "fst (add_transcript env m T w) = Inr ()
       \<and> collection (snd (add_transcript env m T w)) = collection w
       \<and> (split T = [] \<longrightarrow> add_transcript env m T w = (Inr (), w))"
proof -
  obtain r w1 where e: "embed_all env (chunk_text T 300 50) w = (r, w1)" by fastforce
  have r: "r = Inr []" using embed_all_none [OF assms, of w] e by simp
  have c: "collection w1 = collection w" using embed_all_frame [OF e] by simp
  have 1: "fst (add_transcript env m T w) = Inr ()
       \<and> collection (snd (add_transcript env m T w)) = collection w"
    using e r c by (simp add: add_transcript_def Let_def)
  have 2: "split T = [] \<longrightarrow> add_transcript env m T w = (Inr (), w)"
    by (simp add: add_transcript_def chunk_text_def Let_def)
  from 1 2 show ?thesis by simp
qed

lemma embed_all_fixed:
  assumes "\<forall>n. embed env n = f"
    and "\<forall>c\<in>set cs. (\<exists>v. f c = Embedding v) \<or> f c = EmbedRaises RequestError \<or> f c = EmbedRaises KeyError"
  shows "fst (embed_all env cs w) =
     Inr (map (\<lambda>c. case f c of Embedding v \<Rightarrow> Some v | EmbedRaises e \<Rightarrow> None)
            (filter (\<lambda>c. case f c of Embedding v \<Rightarrow> True | EmbedRaises e \<Rightarrow> False) cs))"
  using assms(2)
proof (induction cs arbitrary: w)
  case Nil
  then show ?case by simp
next
  case (Cons c cs)
  let ?w1 = "emit (EmbedRequest c) w"
  let ?w2 = "emit (EmbedRequest c) ?w1"
  have rest: "\<forall>c\<in>set cs. (\<exists>v. f c = Embedding v) \<or> f c = EmbedRaises RequestError \<or> f c = EmbedRaises KeyError"
    using Cons.prems by simp
  have em: "embed env n c = f c" for n using assms(1) by simp
  show ?case
  proof (cases "f c")
    case (EmbedRaises e)
    then have "e = RequestError \<or> e = KeyError" using Cons.prems by auto
    then have g: "get_embedding env c w = (Inr None, ?w1)"
      using EmbedRaises em by (auto simp: get_embedding_def)
    show ?thesis using Cons.IH [OF rest, of ?w1] EmbedRaises by (simp add: g)
  next
    case (Embedding v)
    have g1: "get_embedding env c w = (Inr (Some v), ?w1)"
      and g2: "get_embedding env c ?w1 = (Inr (Some v), ?w2)"
      using Embedding em by (simp_all add: get_embedding_def)
    obtain r3 w3 where e3: "embed_all env cs ?w2 = (r3, w3)" by fastforce
    with Cons.IH [OF rest, of ?w2] have "r3 = Inr (map (\<lambda>c. case f c of Embedding v \<Rightarrow> Some v | EmbedRaises e \<Rightarrow> None)
            (filter (\<lambda>c. case f c of Embedding v \<Rightarrow> True | EmbedRaises e \<Rightarrow> False) cs))"
      by simp
    then show ?thesis using Embedding e3 by (simp add: g1 g2)
  qed
qed

text \<open>
  X2. With an embedding service whose answer depends on the text alone: when the
  embedding succeeds for at least one chunk and fails, in transport or with \<open>KeyError\<close>,
  for at least one other, indexing raises \<open>IndexError\<close> and stores nothing.
\<close>

theorem partial_failure_raises:
  assumes "\<forall>n. embed env n = f"
    and "\<forall>c\<in>set (chunk_text T 300 50).
           (\<exists>v. f c = Embedding v) \<or> f c = EmbedRaises RequestError \<or> f c = EmbedRaises KeyError"
    and "\<exists>c\<in>set (chunk_text T 300 50). \<exists>v. f c = Embedding v"
    and "\<exists>c\<in>set (chunk_text T 300 50). f c = EmbedRaises RequestError \<or> f c = EmbedRaises KeyError"
  shows "fst (add_transcript env m T w) = Inl IndexError
       \<and> collection (snd (add_transcript env m T w)) = collection w"
proof -
  let ?cs = "chunk_text T 300 50"
  let ?ok = "filter (\<lambda>c. case f c of Embedding v \<Rightarrow> True | EmbedRaises e \<Rightarrow> False) ?cs"
  let ?em = "map (\<lambda>c. case f c of Embedding v \<Rightarrow> Some v | EmbedRaises e \<Rightarrow> None) ?ok"
  obtain r w1 where e: "embed_all env ?cs w = (r, w1)" by fastforce
  have r: "r = Inr ?em" using embed_all_fixed [OF assms(1,2), of w] e by simp
  have c: "collection w1 = collection w" using embed_all_frame [OF e] by simp
  have ne: "?cs \<noteq> []" using assms(3) by auto
  have ok: "?ok \<noteq> []"
  proof -
    from assms(3) obtain c v where "c \<in> set ?cs" "f c = Embedding v" by blast
    then have "c \<in> set ?ok" by simp
    then show ?thesis by (metis empty_iff empty_set)
  qed
  from assms(4) obtain c where bad: "c \<in> set ?cs"
    and "f c = EmbedRaises RequestError \<or> f c = EmbedRaises KeyError" by blast
  then have "\<not> (case f c of Embedding v \<Rightarrow> True | EmbedRaises e \<Rightarrow> False)" by auto
  with bad have "length ?ok < length ?cs" by (rule length_filter_less)
  then have "valid_chunks_from 0 ?cs ?em = Inl IndexError"
    by (intro valid_chunks_short) simp_all
  then show ?thesis using e r c ne ok by (simp add: add_transcript_def Let_def)
qed

lemma valid_chunks_full:
  "length embeddings = i + length chunks \<Longrightarrow> \<forall>e\<in>set embeddings. e \<noteq> None
     \<Longrightarrow> valid_chunks_from i chunks embeddings = Inr chunks"
proof (induction chunks arbitrary: i)
  case Nil
  then show ?case by simp
next
  case (Cons c chunks)
  have "length embeddings = Suc i + length chunks" using Cons.prems(1) by simp
  from Cons.IH [OF this Cons.prems(2)] Cons.prems show ?case by simp
qed

lemma those_Some: "those (map Some vs) = Some vs"
  by (induction vs) simp_all

lemma same_dimension_all:
  "\<forall>v\<in>set vs. length v = n \<Longrightarrow> d = None \<or> d = Some n \<Longrightarrow> same_dimension d vs"
  by (induction vs arbitrary: d) auto

lemma zip_by_index:
  "map (\<lambda>(i, v, d, m). E i v d m)
     (zip (map g [0..<length cs]) (zip (map h cs) (zip cs (map k cs))))
   = map (\<lambda>i. E (g i) (h (cs ! i)) (cs ! i) (k (cs ! i))) [0..<length cs]"
  by (rule nth_equalityI) simp_all

text \<open>
  X3. With an embedding service whose answer depends on the text alone and succeeds for
  every chunk of a transcript that has a word, with embeddings of one length, which is
  the dimension of the collection when it holds a record: indexing raises nothing and
  adds, for each chunk \<open>i\<close> whose identifier is not yet stored, the chunk with its own
  embedding, the meeting's id as its tag and the identifier \<open>{meeting_id}_{i}\<close>.
\<close>

theorem indexing_stores_all:
  assumes "\<forall>n. embed env n = f"
    and "\<forall>c\<in>set (chunk_text T 300 50). f c = Embedding (v c)"
    and "split T \<noteq> []"
    and "\<forall>c\<in>set (chunk_text T 300 50). length (v c) = n"
    and "dimension (collection w) = None \<or> dimension (collection w) = Some n"
  shows "fst (add_transcript env m T w) = Inr ()
       \<and> collection (snd (add_transcript env m T w)) =
           collection w @
             filter (\<lambda>x. entry_id x \<notin> entry_id ` set (collection w))
               (map (\<lambda>i. \<lparr>entry_id = doc_id m i,
                           entry_embedding = v (chunk_text T 300 50 ! i),
                           entry_document = chunk_text T 300 50 ! i,
                           entry_meeting_id = m\<rparr>)
                  [0..<length (chunk_text T 300 50)])"
proof -
  let ?cs = "chunk_text T 300 50"
  let ?em = "map (\<lambda>c. Some (v c)) ?cs"
  have "0 < length ?cs"
    using assms(3) below_count [of 0 "length (split T)"] by (simp add: chunk_count)
  then have ne: "?cs \<noteq> []" by auto
  have a2: "\<forall>c\<in>set ?cs. (\<exists>v. f c = Embedding v) \<or> f c = EmbedRaises RequestError
      \<or> f c = EmbedRaises KeyError"
    using assms(2) by simp
  have fl: "filter (\<lambda>c. case f c of Embedding v \<Rightarrow> True | EmbedRaises e \<Rightarrow> False) ?cs = ?cs"
    using assms(2) by (simp add: filter_id_conv)
  have mp: "map (\<lambda>c. case f c of Embedding v \<Rightarrow> Some v | EmbedRaises e \<Rightarrow> None) ?cs = ?em"
    using assms(2) by simp
  obtain r w1 where e: "embed_all env ?cs w = (r, w1)" by fastforce
  have r: "r = Inr ?em" using embed_all_fixed [OF assms(1) a2, of w] e unfolding fl mp by simp
  have c: "collection w1 = collection w" using embed_all_frame [OF e] by simp
  have vc: "valid_chunks_from 0 ?cs ?em = Inr ?cs"
    by (rule valid_chunks_full) auto
  have th: "those ?em = Some (map v ?cs)"
    using those_Some [of "map v ?cs"] by (simp add: comp_def)
  have z: "map (\<lambda>(i, v, d, m).
                \<lparr>entry_id = i, entry_embedding = v, entry_document = d, entry_meeting_id = m\<rparr>)
             (zip (map (doc_id m) [0..<length ?cs]) (zip (map v ?cs) (zip ?cs (map (\<lambda>c. m) ?cs))))
         = map (\<lambda>i. \<lparr>entry_id = doc_id m i, entry_embedding = v (?cs ! i),
                       entry_document = ?cs ! i, entry_meeting_id = m\<rparr>) [0..<length ?cs]"
    by (rule zip_by_index)
  have ca: "collection_add ?em ?cs (map (\<lambda>c. m) ?cs) (map (doc_id m) [0..<length ?cs]) (collection w1)
      = Inr (collection w @
             filter (\<lambda>x. entry_id x \<notin> entry_id ` set (collection w))
               (map (\<lambda>i. \<lparr>entry_id = doc_id m i, entry_embedding = v (?cs ! i),
                       entry_document = ?cs ! i, entry_meeting_id = m\<rparr>) [0..<length ?cs]))"
  proof -
    have "same_dimension (dimension (collection w)) (map v ?cs)"
      using assms(4,5) by (intro same_dimension_all [where n = n]) auto
    then show ?thesis unfolding collection_add_def th z [symmetric] c by simp
  qed
  have em: "?em \<noteq> []" using ne by simp
  show ?thesis
    using e r ne em vc ca by (simp add: add_transcript_def Let_def)
qed

theorem indexing_noop_witness:
  "chunk_text ''hello world'' 300 50 = [''hello world'']
   \<and> embed offline 0 ''hello world'' = EmbedRaises RequestError
   \<and> fst (add_transcript offline 7 ''hello world'' indexed_world) = Inr ()
   \<and> collection (snd (add_transcript offline 7 ''hello world'' indexed_world)) = collection indexed_world
   \<and> split [] = []
   \<and> add_transcript answering 7 [] indexed_world = (Inr (), indexed_world)"
proof -
  have a: "\<forall>n. \<forall>c\<in>set (chunk_text ''hello world'' 300 50).
             embed offline n c = EmbedRaises RequestError \<or> embed offline n c = EmbedRaises KeyError"
    by (simp add: offline_fields)
  have e: "chunk_text [] 300 50 = []" by (simp add: chunk_text_def split_def)
  have b: "\<forall>n. \<forall>c\<in>set (chunk_text [] 300 50).
             embed answering n c = EmbedRaises RequestError \<or> embed answering n c = EmbedRaises KeyError"
    unfolding e by simp
  show ?thesis
    using indexing_noop [OF a, of 7 indexed_world] indexing_noop [OF b, of 7 indexed_world]
    by (simp add: hello_chunks offline_fields split_def)
qed

theorem partial_failure_raises_witness:
  "chunk_text long_transcript 300 50 = [long_transcript, ''w'']
   \<and> embed flaky 0 long_transcript = Embedding [1, 2]
   \<and> embed flaky 0 ''w'' = EmbedRaises RequestError
   \<and> fst (add_transcript flaky 7 long_transcript indexed_world) = Inl IndexError
   \<and> collection (snd (add_transcript flaky 7 long_transcript indexed_world)) = collection indexed_world"
proof -
  let ?f = "\<lambda>text. if text = ''w'' then EmbedRaises RequestError else Embedding [1, 2]"
  have 1: "\<forall>n. embed flaky n = ?f" by (simp add: flaky_fields)
  have 2: "\<forall>c\<in>set (chunk_text long_transcript 300 50).
           (\<exists>v. ?f c = Embedding v) \<or> ?f c = EmbedRaises RequestError \<or> ?f c = EmbedRaises KeyError"
    by simp
  have 3: "\<exists>c\<in>set (chunk_text long_transcript 300 50). \<exists>v. ?f c = Embedding v"
    by (simp add: long_chunks long_not_short)
  have 4: "\<exists>c\<in>set (chunk_text long_transcript 300 50).
      ?f c = EmbedRaises RequestError \<or> ?f c = EmbedRaises KeyError"
    by (simp add: long_chunks)
  show ?thesis
    using partial_failure_raises [OF 1 2 3 4, of 7 indexed_world]
    by (simp add: long_chunks flaky_fields long_not_short)
qed

theorem indexing_stores_all_witness:
  "chunk_text ''budget review for the zoo project'' 300 50 = [''budget review for the zoo project'']
   \<and> embed answering 0 ''budget review for the zoo project'' = Embedding [1, 2]
   \<and> dimension (collection upload_world) = None
   \<and> fst (add_transcript answering 8 ''budget review for the zoo project'' upload_world) = Inr ()
   \<and> collection (snd (add_transcript answering 8 ''budget review for the zoo project'' upload_world))
       = [\<lparr>entry_id = ''8_0'', entry_embedding = [1, 2],
           entry_document = ''budget review for the zoo project'', entry_meeting_id = 8\<rparr>]"
proof -
  let ?T = "''budget review for the zoo project''"
  have 1: "\<forall>n. embed answering n = (\<lambda>text. Embedding [1, 2])" by (simp add: answering_fields)
  have 2: "\<forall>c\<in>set (chunk_text ?T 300 50). (\<lambda>text. Embedding [1, 2]) c = Embedding ((\<lambda>c. [1, 2]) c)"
    by simp
  have 3: "split ?T \<noteq> []" by (simp add: split_def is_space_def)
  have 4: "\<forall>c\<in>set (chunk_text ?T 300 50). length ((\<lambda>c. [1, 2 :: int]) c) = 2" by simp
  have 5: "dimension (collection upload_world) = None \<or> dimension (collection upload_world) = Some 2"
    by (simp add: dimension_def indexed_events)
  show ?thesis
    using indexing_stores_all [OF 1 2 3 4 5, of 8]
    by (simp add: zoo_chunks answering_fields doc_ids indexed_events dimension_def)
qed

section \<open>AIPipeline: a commit that fails\<close>

text \<open>
  X5. When transcription succeeds, the meeting exists and the reply of the language model
  parses to an object whose \<open>summary\<close> or \<open>sentiment\<close> is a list or an object, the commit
  of \<open>update_insights\<close> raises and the \<open>update_status\<close> of the handler raises
  \<open>PendingRollbackError\<close>: \<open>run\<close> raises it, \<open>failed\<close> is not persisted and the row stays
  in status \<open>analyzing\<close>. The upload is removed all the same.
\<close>

theorem failed_commit_leaves_analyzing:
  assumes "db w mid \<noteq> None" and "transcribe env fp = Inr T"
    and "\<forall>w'. fst (extract_insights env T w') = Inr (JDict items)"
    and "\<not> (bindable (dict_get items ''summary'' JNull) \<and> bindable (dict_get items ''sentiment'' JNull))"
  shows "fst (run env mid fp w) = Inl PendingRollbackError
       \<and> poll mid (snd (run env mid fp w)) = Some ''analyzing''
       \<and> statuses mid (events (snd (run env mid fp w)))
           = statuses mid (events w) @ [''transcribing'', ''analyzing'']
       \<and> fp \<notin> files (snd (run env mid fp w))"
proof -
  let ?w1 = "begin_phase Transcription mid (update_status mid ''transcribing'' w)"
  let ?w2 = "update_transcript mid T ?w1"
  let ?w3 = "begin_phase Extraction mid (update_status mid ''analyzing'' ?w2)"
  let ?w4 = "emit (ExtractRequest T) ?w3"
  have d1: "db ?w1 mid \<noteq> None"
    using update_status_known [OF assms(1), of "''transcribing''"] by simp
  have d2: "db ?w2 mid \<noteq> None" using d1 by (rule update_transcript_known)
  have d4: "db ?w4 mid \<noteq> None"
    using update_status_known [OF d2, of "''analyzing''"] by simp
  have p4: "poll mid ?w4 = Some ''analyzing''"
    using update_status_poll [OF d2, of "''analyzing''"] by simp
  have e4: "events ?w4 = events w @ [StatusPersisted mid ''transcribing'',
      Started Transcription (poll mid (update_status mid ''transcribing'' w)),
      StatusPersisted mid ''analyzing'',
      Started Extraction (poll mid (update_status mid ''analyzing'' ?w2)), ExtractRequest T]"
    using update_status_known [OF assms(1), of "''transcribing''"]
      update_status_known [OF d2, of "''analyzing''"] by simp
  have x: "extract_insights env T ?w3 = (Inr (JDict items), ?w4)"
    using assms(3) extract_insights_snd [of env T ?w3] by (metis prod.collapse)
  have u: "update_insights mid (JDict items) ?w4 = (Inl DBAPIError, NeedsRollback, ?w4)"
    using d4 assms(4) by (rule update_insights_unbindable)
  have r: "run env mid fp w = (Inl PendingRollbackError, remove_upload fp ?w4)"
    using assms(2) x u by (simp add: run_def run_try_def Let_def)
  have 1: "fst (run env mid fp w) = Inl PendingRollbackError" by (simp add: r)
  have 2: "poll mid (snd (run env mid fp w)) = Some ''analyzing''" using p4 by (simp add: r)
  have 3: "statuses mid (events (snd (run env mid fp w)))
           = statuses mid (events w) @ [''transcribing'', ''analyzing'']"
    unfolding r snd_conv remove_upload_simps e4 by (simp add: statuses_append)
  have 4: "fp \<notin> files (snd (run env mid fp w))" by (simp add: r remove_upload_simps)
  from 1 2 3 4 show ?thesis by (intro conjI)
qed

theorem failed_commit_leaves_analyzing_witness:
  "db upload_world 7 \<noteq> None
   \<and> transcribe listing ''uploads/a.wav'' = Inr ''hello world''
   \<and> (\<forall>w'. fst (extract_insights listing ''hello world'' w') =
        Inr (JDict [(''summary'', JList [JStr ''budget'', JStr ''hiring'']),
                    (''sentiment'', JStr ''Neutral'')]))
   \<and> \<not> bindable (dict_get [(''summary'', JList [JStr ''budget'', JStr ''hiring'']),
                             (''sentiment'', JStr ''Neutral'')] ''summary'' JNull)
   \<and> fst (run listing 7 ''uploads/a.wav'' upload_world) = Inl PendingRollbackError
   \<and> poll 7 (snd (run listing 7 ''uploads/a.wav'' upload_world)) = Some ''analyzing''
   \<and> statuses 7 (events (snd (run listing 7 ''uploads/a.wav'' upload_world)))
        = [''transcribing'', ''analyzing'']
   \<and> ''uploads/a.wav'' \<notin> files (snd (run listing 7 ''uploads/a.wav'' upload_world))"
proof -
  let ?items = "[(''summary'', JList [JStr ''budget'', JStr ''hiring'']), (''sentiment'', JStr ''Neutral'')]"
  have a: "db upload_world 7 \<noteq> None" by (simp add: upload_world_def)
  have b: "transcribe listing ''uploads/a.wav'' = Inr ''hello world''" by (rule listing_transcribe)
  have c: "\<forall>w'. fst (extract_insights listing ''hello world'' w') = Inr (JDict ?items)"
    by (simp add: listing_extract)
  have d: "\<not> bindable (dict_get ?items ''summary'' JNull)" by (simp add: dict_get_def)
  then have d': "\<not> (bindable (dict_get ?items ''summary'' JNull)
      \<and> bindable (dict_get ?items ''sentiment'' JNull))" by simp
  note t = failed_commit_leaves_analyzing [OF a b c d']
  have 3: "statuses 7 (events (snd (run listing 7 ''uploads/a.wav'' upload_world)))
        = [''transcribing'', ''analyzing'']"
    using t [THEN conjunct2, THEN conjunct2, THEN conjunct1] by (simp add: indexed_events)
  show ?thesis
    by (intro conjI a b c d t [THEN conjunct1] t [THEN conjunct2, THEN conjunct1] 3
          t [THEN conjunct2, THEN conjunct2, THEN conjunct2])
qed

end
